theory Spec2Isabelle
  imports Main "HOL-Library.AList" "HOL-Library.Multiset" "HOL-Library.Char_ord"
    "HOL-Library.List_Lexorder" "HOL-Library.Code_Target_Numeral"
begin

section \<open>Data model\<close>

text \<open>
  A snapshot of a browser tab as the organizer reads it. \<open>id\<close> and \<open>url\<close> are optional
  in the browser's type; the source tests them with \<open>!id\<close> and \<open>!url\<close>, which is also true
  of the number 0 and of the empty string.
\<close>

record tab =
  tab_id :: "int option"
  url :: "string option"
  windowId :: nat
  pinned :: bool

datatype error =
    LastError string
  | NoUrlForSortedTab
  | NoIdForSortedTab
  | NoIdForTab
  | NoTabUrl
  | InvalidUrl
  | NotAFunction
  | NoStateToParse
  | JsonSyntaxError
  | KeysOfNull
  | InvalidSettingsStorage
  | StorageError string

text \<open>
  The collaborators of the organizer that are not part of the sources at hand:
  the \<open>URL\<close> constructor (\<open>None\<close> when it throws its TypeError), the helper
  \<open>parseSharedDomain\<close>, the built-in \<open>String.prototype.localeCompare\<close>, the palette
  \<open>Object.keys(browser.tabGroups.Color)\<close> mapped to its values, and the conjunction of the
  four \<open>isSupported\<close> checks.
\<close>

record browser =
  urlHostname :: "string \<Rightarrow> string option"
  parseSharedDomain :: "string \<Rightarrow> string"
  localeCompare :: "string \<Rightarrow> string \<Rightarrow> int"
  colors :: "string list"
  isTabGroupingSupported :: bool

section \<open>Sorting\<close>

definition domainCompare :: "(string \<Rightarrow> string \<Rightarrow> int) \<Rightarrow> string \<Rightarrow> string \<Rightarrow> int" where
  "domainCompare lc a b =
     (if a = b then 0
      else if a = ''new'' then 1
      else if b = ''new'' then - 1
      else lc a b)"

text \<open>The comparator handed to \<open>tabs.sort\<close> in \<open>sortTabsAlphabetically\<close>.\<close>

definition tabCompare :: "browser \<Rightarrow> tab \<Rightarrow> tab \<Rightarrow> error + int" where
  "tabCompare br a b =
     (case (url a, url b) of
        (Some ua, Some ub) \<Rightarrow>
          if ua = [] \<or> ub = [] then Inl NoUrlForSortedTab
          else (case urlHostname br ua of
                  None \<Rightarrow> Inl InvalidUrl
                | Some firstTabHostname \<Rightarrow>
                    (case urlHostname br ub of
                       None \<Rightarrow> Inl InvalidUrl
                     | Some secondTabHostname \<Rightarrow>
                         Inr (domainCompare (localeCompare br)
                                (parseSharedDomain br firstTabHostname)
                                (parseSharedDomain br secondTabHostname))))
      | _ \<Rightarrow> Inl NoUrlForSortedTab)"

text \<open>
  \<open>Array.prototype.sort\<close> is the engine's: a stable sort that calls the comparator on every
  element as soon as the array has two of them, and lets an exception of the comparator
  escape. It is modelled as the stable insertion sort: an element goes before the first
  element it does not compare greater than.
\<close>

fun insertSorted :: "('a \<Rightarrow> 'a \<Rightarrow> error + int) \<Rightarrow> 'a \<Rightarrow> 'a list \<Rightarrow> error + 'a list" where
  "insertSorted cmp x [] = Inr [x]"
| "insertSorted cmp x (y # ys) =
     (case cmp x y of
        Inl e \<Rightarrow> Inl e
      | Inr c \<Rightarrow>
          if c \<le> 0 then Inr (x # y # ys)
          else (case insertSorted cmp x ys of
                  Inl e \<Rightarrow> Inl e
                | Inr zs \<Rightarrow> Inr (y # zs)))"

fun arraySort :: "('a \<Rightarrow> 'a \<Rightarrow> error + int) \<Rightarrow> 'a list \<Rightarrow> error + 'a list" where
  "arraySort cmp [] = Inr []"
| "arraySort cmp (x # xs) =
     (case arraySort cmp xs of
        Inl e \<Rightarrow> Inl e
      | Inr ys \<Rightarrow> insertSorted cmp x ys)"

definition sortTabsAlphabetically :: "browser \<Rightarrow> tab list \<Rightarrow> error + tab list" where
  "sortTabsAlphabetically br tabs = arraySort (tabCompare br) tabs"

text \<open>The domain label of a tab, when it has a URL that the \<open>URL\<close> constructor accepts.\<close>

definition domainOfTab :: "browser \<Rightarrow> tab \<Rightarrow> string option" where
  "domainOfTab br t =
     (case url t of
        None \<Rightarrow> None
      | Some u \<Rightarrow>
          if u = [] then None
          else map_option (parseSharedDomain br) (urlHostname br u))"

section \<open>Objects with ordered keys\<close>

text \<open>
  A JavaScript object is an association list in insertion order; \<open>obj[k] = v\<close> is
  \<open>AList.update k v\<close> (an existing key keeps its place, a new key goes last).
  \<open>Object.keys\<close> lists the keys that are array indices (canonical numerals below
  \<open>2\<^sup>3\<^sup>2 - 1\<close>) first, in ascending order, then the other keys in insertion order.
  \<open>objectEntries\<close> pairs every key of \<open>Object.keys\<close> with the value \<open>obj[key]\<close>.
\<close>

definition objectEntries :: "('k \<Rightarrow> nat option) \<Rightarrow> ('k \<times> 'v) list \<Rightarrow> ('k \<times> 'v) list" where
  "objectEntries arrayIndex obj =
     sort_key (\<lambda>(k, v). case arrayIndex k of Some i \<Rightarrow> i | None \<Rightarrow> 0)
        (filter (\<lambda>(k, v). arrayIndex k \<noteq> None) obj)
     @ filter (\<lambda>(k, v). arrayIndex k = None) obj"

definition objectKeys :: "('k \<Rightarrow> nat option) \<Rightarrow> ('k \<times> 'v) list \<Rightarrow> 'k list" where
  "objectKeys arrayIndex obj = map fst (objectEntries arrayIndex obj)"

definition isDigit :: "char \<Rightarrow> bool" where
  "isDigit c = (CHR ''0'' \<le> c \<and> c \<le> CHR ''9'')"

definition digitsToNat :: "string \<Rightarrow> nat" where
  "digitsToNat s = fold (\<lambda>c n. 10 * n + (of_char c - 48)) s 0"

text \<open>The array index a property name stands for, if it is one.\<close>

definition stringIndex :: "string \<Rightarrow> nat option" where
  "stringIndex s =
     (if s \<noteq> [] \<and> list_all isDigit s \<and> (s = ''0'' \<or> hd s \<noteq> CHR ''0'')
         \<and> digitsToNat s < 4294967295
      then Some (digitsToNat s) else None)"

text \<open>A window id used as a property name: \<open>String(windowId)\<close> is canonical.\<close>

definition numberIndex :: "nat \<Rightarrow> nat option" where
  "numberIndex n = (if n < 4294967295 then Some n else None)"

text \<open>
  The decimal numeral of a number, as \<open>String\<close> and a template literal print it and as
  it names a property.
\<close>

function showNat :: "nat \<Rightarrow> string" where
  "showNat n =
     (if n < 10 then [char_of (48 + n)]
      else showNat (n div 10) @ [char_of (48 + n mod 10)])"
  by pat_completeness auto
termination
  by (relation "measure id") auto

section \<open>Clustering\<close>

text \<open>
  \<open>MkTabIdsByDomain\<close>: domain label, then window id, then the tab ids of the bucket. The
  object is built in a plain \<open>{}\<close>, and a window object holds what the code puts there:
  the array of the tab ids of a bucket or, where a spread has copied the elements of an
  array, a lone tab id.
\<close>

datatype bucket = TabIds "int list" | TabId int

type_synonym tabIdsByDomain = "(string \<times> (nat \<times> bucket) list) list"

text \<open>
  What the organizer asks of the browser synchronously during a pass:
  \<open>tabs.move(id, {index: -1})\<close>, \<open>tabs.ungroup(ids)\<close>, and a call of its own
  asynchronous \<open>addNewGroup({idx, name, tabIds, windowId})\<close>, where \<open>tabIds\<close> is an array
  or (\<open>AddNewGroupOfTab\<close>) a lone tab id.
\<close>

datatype command =
    Move int
  | Ungroup "int list"
  | AddNewGroup int string "int list" nat
  | AddNewGroupOfTab int string int nat

definition filterNonPinnedTabs :: "tab list \<Rightarrow> tab list" where
  "filterNonPinnedTabs tabs = filter (\<lambda>t. \<not> pinned t) tabs"

text \<open>
  \<open>tabIdsByDomain[domain]\<close> is a property read of a plain object: a label that is not an
  own key is looked up in the prototype. The label "__proto__" reads the prototype itself,
  and an assignment to it replaces the prototype and creates no key. The prototype is
  \<open>Object.prototype\<close> (\<open>None\<close>) until then; a replacement is an object that holds arrays
  of tab ids under window ids, and whose own prototype is \<open>Object.prototype\<close>.
\<close>

type_synonym prototype = "(nat \<times> int list) list option"

text \<open>The property names that \<open>Object.prototype\<close> answers with a function.\<close>

definition objectPrototypeMethods :: "string list" where
  "objectPrototypeMethods =
     [''constructor'', ''hasOwnProperty'', ''isPrototypeOf'', ''propertyIsEnumerable'',
      ''toLocaleString'', ''toString'', ''valueOf'', ''__defineGetter__'',
      ''__defineSetter__'', ''__lookupGetter__'', ''__lookupSetter__'']"

text \<open>
  What the prototype chain answers for a label other than "__proto__" that is not an own
  key: an array of a replaced prototype, whose key is \<open>String(windowId)\<close>; a method of
  \<open>Object.prototype\<close>; or nothing (\<open>undefined\<close>).
\<close>

datatype inherited = NotInherited | InheritedMethod | InheritedArray "int list"

definition inheritedProperty :: "prototype \<Rightarrow> string \<Rightarrow> inherited" where
  "inheritedProperty proto domain =
     (case (case proto of
              None \<Rightarrow> None
            | Some p \<Rightarrow> map_of (map (\<lambda>(w, ids). (showNat w, ids)) p) domain) of
        Some ids \<Rightarrow> InheritedArray ids
      | None \<Rightarrow>
          if domain \<in> set objectPrototypeMethods then InheritedMethod else NotInherited)"

text \<open>The own enumerable properties of an array of tab ids, as a spread copies them.\<close>

definition arrayProperties :: "int list \<Rightarrow> (nat \<times> bucket) list" where
  "arrayProperties ids = zip [0..<length ids] (map TabId ids)"

text \<open>
  The body of the \<open>forEach\<close> of \<open>sortTabIdsByDomain\<close>, on the own properties of
  \<open>tabIdsByDomain\<close> and its prototype. The three branches of the source are
  \<open>!tabIdsByDomain[domain]\<close>, \<open>!tabIdsByDomain[domain][windowId]\<close> and the \<open>push\<close>:
  \<^item> an own key holds a window object: a missing window id is added by the second branch,
    an array is pushed to, and a lone tab id (truthy unless it is 0) has no \<open>push\<close>;
  \<^item> "__proto__" reads the prototype, an object, so the first branch is never taken: the
    second branch replaces the prototype by a copy extended with the window id, the third
    pushes to the array the prototype holds; no own key is created;
  \<^item> an inherited array is truthy: its element at index \<open>windowId\<close>, a tab id, has no
    \<open>push\<close>; where it has no such element the second branch creates the own key, with the
    elements of the array spread under their indices;
  \<^item> an inherited method is truthy, has no property for a window id and no enumerable
    property to spread: the second branch creates the key as the first branch does for a
    label that reads \<open>undefined\<close>.
\<close>

definition addTabId ::
  "browser \<Rightarrow> tabIdsByDomain \<times> prototype \<Rightarrow> tab \<Rightarrow> error + tabIdsByDomain \<times> prototype" where
  "addTabId br object t =
     (case tab_id t of
        None \<Rightarrow> Inl NoIdForTab
      | Some i \<Rightarrow>
          if i = 0 then Inl NoIdForTab
          else (case url t of
                  None \<Rightarrow> Inl NoTabUrl
                | Some u \<Rightarrow>
                    if u = [] then Inl NoTabUrl
                    else (case urlHostname br u of
                            None \<Rightarrow> Inl InvalidUrl
                          | Some hostname \<Rightarrow>
                              (let domain = parseSharedDomain br hostname;
                                   tabIdsByDomain = fst object;
                                   proto = snd object
                               in case map_of tabIdsByDomain domain of
                                 Some byWindow \<Rightarrow>
                                   (case map_of byWindow (windowId t) of
                                      None \<Rightarrow>
                                        Inr (AList.update domain
                                               (AList.update (windowId t) (TabIds [i]) byWindow)
                                               tabIdsByDomain, proto)
                                    | Some (TabIds ids) \<Rightarrow>
                                        Inr (AList.update domain
                                               (AList.update (windowId t) (TabIds (ids @ [i])) byWindow)
                                               tabIdsByDomain, proto)
                                    | Some (TabId n) \<Rightarrow>
                                        if n = 0 then
                                          Inr (AList.update domain
                                                 (AList.update (windowId t) (TabIds [i]) byWindow)
                                                 tabIdsByDomain, proto)
                                        else Inl NotAFunction)
                               | None \<Rightarrow>
                                   if domain = ''__proto__'' then
                                     (case proto of
                                        None \<Rightarrow> Inr (tabIdsByDomain, Some [(windowId t, [i])])
                                      | Some p \<Rightarrow>
                                          (case map_of p (windowId t) of
                                             None \<Rightarrow>
                                               Inr (tabIdsByDomain,
                                                    Some (AList.update (windowId t) [i] p))
                                           | Some ids \<Rightarrow>
                                               Inr (tabIdsByDomain,
                                                    Some (AList.update (windowId t) (ids @ [i]) p))))
                                   else
                                     (case inheritedProperty proto domain of
                                        NotInherited \<Rightarrow>
                                          Inr (AList.update domain [(windowId t, TabIds [i])]
                                                 tabIdsByDomain, proto)
                                      | InheritedMethod \<Rightarrow>
                                          Inr (AList.update domain [(windowId t, TabIds [i])]
                                                 tabIdsByDomain, proto)
                                      | InheritedArray ids \<Rightarrow>
                                          if windowId t < length ids \<and> ids ! windowId t \<noteq> 0
                                          then Inl NotAFunction
                                          else Inr (AList.update domain
                                                      (AList.update (windowId t) (TabIds [i])
                                                         (arrayProperties ids))
                                                      tabIdsByDomain, proto))))))"

fun addTabIds ::
  "browser \<Rightarrow> tabIdsByDomain \<times> prototype \<Rightarrow> tab list \<Rightarrow> error + tabIdsByDomain \<times> prototype" where
  "addTabIds br object [] = Inr object"
| "addTabIds br object (t # ts) =
     (case addTabId br object t of
        Inl e \<Rightarrow> Inl e
      | Inr object' \<Rightarrow> addTabIds br object' ts)"

text \<open>
  \<open>sortTabIdsByDomain\<close> starts from \<open>{}\<close>. Of the object it returns, the own properties
  are kept: \<open>renderBrowserTabGroups\<close> reads it through \<open>Object.keys\<close> only.
\<close>

definition sortTabIdsByDomain :: "browser \<Rightarrow> tab list \<Rightarrow> error + tabIdsByDomain" where
  "sortTabIdsByDomain br tabs =
     (case addTabIds br ([], None) tabs of
        Inl e \<Rightarrow> Inl e
      | Inr object \<Rightarrow> Inr (fst object))"

text \<open>
  \<open>getColorForGroup\<close>: \<open>colors[index % colorKeys.length]\<close>. The remainder of JavaScript
  has the sign of the dividend, and reading an array at a negative index or at \<open>NaN\<close>
  gives \<open>undefined\<close> (\<open>None\<close>).
\<close>

definition getColorForGroup :: "browser \<Rightarrow> int \<Rightarrow> string option" where
  "getColorForGroup br index =
     (let n = int (length (colors br)) in
      if n = 0 then None
      else (let colorIdx = (if index < 0 then - ((- index) mod n) else index mod n) in
            if colorIdx < 0 then None else Some (colors br ! nat colorIdx)))"

text \<open>
  \<open>.length\<close> of a property of a window object: of a lone tab id it is \<open>undefined\<close>, for
  which both tests of \<open>renderBrowserTabGroups\<close>, \<open>length > 1\<close> and \<open>length < 2\<close>, are false.
\<close>

definition isRealGroup :: "bucket \<Rightarrow> bool" where
  "isRealGroup tabIds = (case tabIds of TabIds ids \<Rightarrow> length ids > 1 | TabId n \<Rightarrow> False)"

text \<open>
  The inner \<open>forEach\<close> of \<open>renderBrowserTabGroups\<close> over
  \<open>[...realGroups, ...orphanGroups]\<close>; it returns the commands issued and the new value of
  \<open>groupIdxOffset\<close>.
\<close>

fun renderWindowGroups ::
  "string \<Rightarrow> int \<Rightarrow> (nat \<times> bucket) list \<Rightarrow> int \<Rightarrow> command list \<times> int" where
  "renderWindowGroups name idx [] groupIdxOffset = ([], groupIdxOffset)"
| "renderWindowGroups name idx ((windowGroup, TabIds tabIds) # rest) groupIdxOffset =
     (if length tabIds < 2 then
        (let (cs, off) = renderWindowGroups name idx rest (groupIdxOffset + 1)
         in (Ungroup tabIds # cs, off))
      else
        (let groupIdx = idx - groupIdxOffset;
             (cs, off) = renderWindowGroups name idx rest groupIdxOffset
         in (AddNewGroup groupIdx name tabIds windowGroup # cs, off)))"
| "renderWindowGroups name idx ((windowGroup, TabId tabId) # rest) groupIdxOffset =
     (let groupIdx = idx - groupIdxOffset;
          (cs, off) = renderWindowGroups name idx rest groupIdxOffset
      in (AddNewGroupOfTab groupIdx name tabId windowGroup # cs, off))"

text \<open>The outer \<open>names.forEach((name, idx) => ...)\<close>.\<close>

fun renderNames :: "tabIdsByDomain \<Rightarrow> int \<Rightarrow> int \<Rightarrow> command list" where
  "renderNames [] idx groupIdxOffset = []"
| "renderNames ((name, byWindow) # rest) idx groupIdxOffset =
     (let group = objectEntries numberIndex byWindow;
          realGroups = filter (\<lambda>(windowId, tabIds). isRealGroup tabIds) group;
          orphanGroups = filter (\<lambda>(windowId, tabIds). \<not> isRealGroup tabIds) group;
          (cs, off) = renderWindowGroups name idx (realGroups @ orphanGroups) groupIdxOffset
      in cs @ renderNames rest (idx + 1) off)"

definition renderBrowserTabGroups :: "tabIdsByDomain \<Rightarrow> command list" where
  "renderBrowserTabGroups tabIdsByGroup =
     renderNames (objectEntries stringIndex tabIdsByGroup) 0 0"

definition groupBrowserTabs :: "browser \<Rightarrow> tab list \<Rightarrow> error + command list" where
  "groupBrowserTabs br tabs =
     (case sortTabIdsByDomain br (filterNonPinnedTabs tabs) of
        Inl e \<Rightarrow> Inl e
      | Inr tabIdsByDomain \<Rightarrow> Inr (renderBrowserTabGroups tabIdsByDomain))"

text \<open>
  \<open>reorderBrowserTabs\<close>: the moves issued before the first tab without an id, and the
  error thrown there. (The callback of \<open>tabs.move\<close> runs after the pass; what it throws
  does not reach \<open>organize\<close>.)
\<close>

fun reorderBrowserTabs :: "tab list \<Rightarrow> command list \<times> error option" where
  "reorderBrowserTabs [] = ([], None)"
| "reorderBrowserTabs (t # ts) =
     (case tab_id t of
        None \<Rightarrow> ([], Some NoIdForSortedTab)
      | Some i \<Rightarrow>
          if i = 0 then ([], Some NoIdForSortedTab)
          else (let (cs, err) = reorderBrowserTabs ts in (Move i # cs, err)))"

text \<open>
  \<open>organize\<close>, given \<open>browser.runtime.lastError\<close> and the answer of
  \<open>browser.tabs.query({})\<close>: the commands issued, and the error that ended the pass if
  one did.
\<close>

definition organize :: "browser \<Rightarrow> string option \<Rightarrow> tab list \<Rightarrow> command list \<times> error option" where
  "organize br lastError tabs =
     (case lastError of
        Some e \<Rightarrow> ([], Some (LastError e))
      | None \<Rightarrow>
          (case sortTabsAlphabetically br tabs of
             Inl e \<Rightarrow> ([], Some e)
           | Inr sortedTabs \<Rightarrow>
               (case reorderBrowserTabs sortedTabs of
                  (moves, Some e) \<Rightarrow> (moves, Some e)
                | (moves, None) \<Rightarrow>
                    if \<not> isTabGroupingSupported br then (moves, None)
                    else (case groupBrowserTabs br sortedTabs of
                            Inl e \<Rightarrow> (moves, Some e)
                          | Inr cs \<Rightarrow> (moves @ cs, None)))))"

text \<open>
  \<open>addNewGroup\<close>, given the answer \<open>prevGroup\<close> of \<open>getGroupInfo\<close> (the collapsed flag of
  the first group in the window whose title matches, if any): the options of
  \<open>browser.tabs.group\<close> and the properties of \<open>browser.tabGroups.update\<close>.
\<close>

record groupOptions =
  createWindowId :: nat
  groupTabIds :: "int list"

record updateProperties =
  collapsed :: bool
  color :: "string option"
  title :: string

definition addNewGroup ::
  "browser \<Rightarrow> bool option \<Rightarrow> int \<Rightarrow> string \<Rightarrow> int list \<Rightarrow> nat \<Rightarrow> groupOptions \<times> updateProperties" where
  "addNewGroup br prevGroup idx name tabIds windowId' =
     (let title' = name @ '' ('' @ showNat (length tabIds) @ '')''
      in (\<lparr>createWindowId = windowId', groupTabIds = tabIds\<rparr>,
          \<lparr>collapsed = (case prevGroup of Some c \<Rightarrow> c | None \<Rightarrow> False),
           color = getColorForGroup br idx,
           title = title'\<rparr>))"

text \<open>
  \<open>addNewGroup\<close> when \<open>tabIds\<close> is a lone tab id: \<open>tabIds.length\<close> prints as "undefined",
  and \<open>browser.tabs.group\<close> takes a tab id for the list of that one tab.
\<close>

definition addNewGroupOfTab ::
  "browser \<Rightarrow> bool option \<Rightarrow> int \<Rightarrow> string \<Rightarrow> int \<Rightarrow> nat \<Rightarrow> groupOptions \<times> updateProperties" where
  "addNewGroupOfTab br prevGroup idx name tabId windowId' =
     (let title' = name @ '' (undefined)''
      in (\<lparr>createWindowId = windowId', groupTabIds = [tabId]\<rparr>,
          \<lparr>collapsed = (case prevGroup of Some c \<Rightarrow> c | None \<Rightarrow> False),
           color = getColorForGroup br idx,
           title = title'\<rparr>))"

section \<open>Event handlers\<close>

record changeInfo =
  status :: "string option"
  changedUrl :: "string option"

text \<open>How a handler ends: it throws, or it returns having called \<open>organize\<close> or not.\<close>

datatype outcome = Threw error | Returned | Organized

text \<open>
  The \<open>onUpdated\<close> listener of \<open>connect\<close>. \<open>groupByTabId\<close> is the map of the organizer;
  \<open>enableAutomaticSorting\<close> is whether \<open>state.enableAutomaticSorting\<close> is truthy in the
  state that \<open>store.getState()\<close> resolves to.
\<close>

definition onUpdated ::
  "browser \<Rightarrow> string option \<Rightarrow> bool \<Rightarrow> (int \<rightharpoonup> string) \<Rightarrow> int \<Rightarrow> changeInfo
     \<Rightarrow> (int \<rightharpoonup> string) \<times> outcome" where
  "onUpdated br lastError enableAutomaticSorting groupByTabId tabId info =
     (case lastError of
        Some e \<Rightarrow> (groupByTabId, Threw (LastError e))
      | None \<Rightarrow>
          if status info \<noteq> Some ''loading'' then (groupByTabId, Returned)
          else (case changedUrl info of
                  None \<Rightarrow> (groupByTabId, Returned)
                | Some u \<Rightarrow>
                    if u = [] then (groupByTabId, Returned)
                    else (case urlHostname br u of
                            None \<Rightarrow> (groupByTabId, Threw InvalidUrl)
                          | Some hostname \<Rightarrow>
                              (let domain = parseSharedDomain br hostname;
                                   hasGroupChanged = (groupByTabId tabId \<noteq> Some domain)
                               in if \<not> hasGroupChanged then (groupByTabId, Returned)
                                  else (let groupByTabId' = groupByTabId(tabId \<mapsto> domain)
                                        in if \<not> enableAutomaticSorting
                                           then (groupByTabId', Returned)
                                           else (groupByTabId', Organized))))))"

text \<open>The \<open>onRemoved\<close> listener of \<open>connect\<close>.\<close>

definition onRemoved ::
  "bool \<Rightarrow> (int \<rightharpoonup> string) \<Rightarrow> int \<Rightarrow> (int \<rightharpoonup> string) \<times> outcome" where
  "onRemoved enableAutomaticSorting groupByTabId tabId =
     (let groupByTabId' = groupByTabId(tabId := None)
      in if \<not> enableAutomaticSorting then (groupByTabId', Returned)
         else (groupByTabId', Organized))"

section \<open>Settings store\<close>

text \<open>
  A decoded JSON value, with \<open>undefined\<close> for the value of a property that is not there.
  A state (\<open>MkState\<close>, \<open>Partial<MkState>\<close>) is an object: its properties in insertion
  order.
\<close>

datatype json =
    JUndefined
  | JNull
  | JBool bool
  | JNum int
  | JStr string
  | JArr "json list"
  | JObj "(string \<times> json) list"

type_synonym mkState = "(string \<times> json) list"

text \<open>
  The own enumerable properties \<open>Object.keys\<close> sees; \<open>None\<close> where it throws
  (\<open>null\<close> and \<open>undefined\<close>).
\<close>

fun ownProperties :: "json \<Rightarrow> (string \<times> json) list option" where
  "ownProperties (JObj kvs) = Some kvs"
| "ownProperties (JArr xs) = Some (zip (map showNat [0..<length xs]) xs)"
| "ownProperties (JStr s) = Some (zip (map showNat [0..<length s]) (map (\<lambda>c. JStr [c]) s))"
| "ownProperties (JBool b) = Some []"
| "ownProperties (JNum n) = Some []"
| "ownProperties JNull = None"
| "ownProperties JUndefined = None"

text \<open>\<open>value[key]\<close> for a key that is not inherited from a prototype.\<close>

definition readProperty :: "json \<Rightarrow> string \<Rightarrow> json" where
  "readProperty v key =
     (case ownProperties v of
        None \<Rightarrow> JUndefined
      | Some kvs \<Rightarrow> (case map_of kvs key of None \<Rightarrow> JUndefined | Some x \<Rightarrow> x))"

definition makeDefaultState :: mkState where
  "makeDefaultState =
     [(''clusterGroupedTabs'', JBool True),
      (''enableAutomaticGrouping'', JBool True),
      (''enableAlphabeticSorting'', JBool True),
      (''enableSubdomainFiltering'', JBool False),
      (''forceWindowConsolidation'', JBool False)]"

definition makeLegacyState :: mkState where
  "makeLegacyState = [(''enableAutomaticSorting'', JBool True)]"

definition isLegacyKeyValid :: "string \<Rightarrow> bool" where
  "isLegacyKeyValid key = (key \<in> set (objectKeys stringIndex makeLegacyState))"

definition isKeyValid :: "string \<Rightarrow> bool" where
  "isKeyValid key = (key \<in> set (objectKeys stringIndex makeDefaultState))"

definition getMigratedKey :: "string \<Rightarrow> string option" where
  "getMigratedKey key =
     (case map_of [(''enableAutomaticSorting'', ''enableAlphabeticSorting'')] key of
        None \<Rightarrow> None
      | Some migratedKey \<Rightarrow> if migratedKey = [] then None else Some migratedKey)"

definition migrateState :: "string list \<Rightarrow> json \<Rightarrow> mkState" where
  "migrateState keys st =
     fold (\<lambda>legacyStateKey migratedState.
             case getMigratedKey legacyStateKey of
               None \<Rightarrow> migratedState
             | Some migratedKey \<Rightarrow>
                 AList.update migratedKey (readProperty st legacyStateKey) migratedState)
          (filter isLegacyKeyValid keys) []"

text \<open>
  The object literal \<open>{...a, ...b}\<close>: the properties of \<open>b\<close> assigned one by one to a copy
  of \<open>a\<close>. (Where the keys of an object are enumerated, \<open>objectEntries\<close> puts the array
  indices first.)
\<close>

definition spread :: "mkState \<Rightarrow> mkState \<Rightarrow> mkState" where
  "spread a b = fold (\<lambda>(k, v) acc. AList.update k v acc) b a"

text \<open>
  \<open>parseValidState\<close>; \<open>jsonParse\<close> is \<open>JSON.parse\<close>, \<open>None\<close> when it throws its
  SyntaxError.
\<close>

definition parseValidState :: "(string \<Rightarrow> json option) \<Rightarrow> string \<Rightarrow> error + mkState" where
  "parseValidState jsonParse st =
     (if st = [] then Inl NoStateToParse
      else (case jsonParse st of
              None \<Rightarrow> Inl JsonSyntaxError
            | Some parsedState \<Rightarrow>
                (case ownProperties parsedState of
                   None \<Rightarrow> Inl KeysOfNull
                 | Some properties \<Rightarrow>
                     (let stateKeys = objectKeys stringIndex properties;
                          validStateKeys = filter isKeyValid stateKeys;
                          validParsedState =
                            fold (\<lambda>validStateKey acc.
                                    AList.update validStateKey
                                      (readProperty parsedState validStateKey) acc)
                                 validStateKeys [];
                          migratedState = migrateState stateKeys parsedState;
                          validState = spread validParsedState migratedState
                      in Inr validState))))"

text \<open>
  The store: the in-memory state, and whether the promise \<open>loaded\<close> has been resolved
  (\<open>resolveLoaded\<close> is set by the constructor, so \<open>load\<close> never finds it missing).
\<close>

record store =
  state :: mkState
  loaded :: bool

text \<open>A promise as its awaiter sees it: it never settles, it resolves, or it rejects.\<close>

datatype 'a promise = Pending | Resolved 'a | Rejected error

definition newStore :: store where
  "newStore = \<lparr>state = makeDefaultState, loaded = False\<rparr>"

definition setInternalState :: "store \<Rightarrow> mkState \<Rightarrow> store \<times> mkState" where
  "setInternalState s internalState =
     (let st = spread (state s) internalState in (s\<lparr>state := st\<rparr>, st))"

definition getState :: "store \<Rightarrow> mkState promise" where
  "getState s = (if loaded s then Resolved (state s) else Pending)"

text \<open>
  \<open>setState\<close>: the store afterwards, the \<open>settings\<close> item handed to
  \<open>storage.sync.set\<close> if the call is reached, and how the promise of \<open>setState\<close> settles.
  \<open>writeError\<close> is the rejection of \<open>storage.sync.set\<close>, if it rejects.
\<close>

definition setState ::
  "(mkState \<Rightarrow> string) \<Rightarrow> error option \<Rightarrow> store \<Rightarrow> mkState
     \<Rightarrow> store \<times> string option \<times> unit promise" where
  "setState jsonStringify writeError s st =
     (if \<not> loaded s then (s, None, Pending)
      else (let (s', internalState) = setInternalState s st;
                serializedState = jsonStringify internalState
            in (s', Some serializedState,
                case writeError of None \<Rightarrow> Resolved () | Some e \<Rightarrow> Rejected e)))"

text \<open>What \<open>storage.sync.get('settings')\<close> resolves \<open>settings\<close> to.\<close>

datatype settings = NoSettings | SettingsString string | SettingsOther

definition cacheStorage ::
  "(string \<Rightarrow> json option) \<Rightarrow> error + settings \<Rightarrow> store \<Rightarrow> store \<times> unit promise" where
  "cacheStorage jsonParse got s =
     (case got of
        Inl e \<Rightarrow> (s, Rejected e)
      | Inr NoSettings \<Rightarrow> (s, Resolved ())
      | Inr SettingsOther \<Rightarrow> (s, Rejected InvalidSettingsStorage)
      | Inr (SettingsString settings) \<Rightarrow>
          (case parseValidState jsonParse settings of
             Inl e \<Rightarrow> (s, Rejected e)
           | Inr validState \<Rightarrow> (fst (setInternalState s validState), Resolved ())))"

definition load ::
  "(string \<Rightarrow> json option) \<Rightarrow> error + settings \<Rightarrow> store \<Rightarrow> store \<times> unit promise" where
  "load jsonParse got s =
     (case cacheStorage jsonParse got s of
        (s', Resolved u) \<Rightarrow> (s'\<lparr>loaded := True\<rparr>, Resolved ())
      | (s', p) \<Rightarrow> (s', p))"

section \<open>The organizer without windows\<close>

text \<open>
  \<open>TabOrganizer\<close>, the sibling of \<open>SiteOrganizer\<close> that knows no windows: its comparator
  is \<open>localeCompare\<close> alone, \<open>sortTabIdsByDomain\<close> skips a tab without a URL and files an
  empty label under "system", and it stores \<open>tab.id\<close> as it is (possibly \<open>undefined\<close>).
  Its object of buckets is a plain \<open>{}\<close> too: a label that is not an own key and that
  \<open>Object.prototype\<close> answers ("__proto__" with itself, the others with a method) reads
  truthy, and what it reads has no \<open>push\<close>.
\<close>

datatype command_TabOrganizer =
    MoveTO int
  | UngroupTO "int option list"
  | AddNewGroupTO int string "int option list"

definition tabCompare_TabOrganizer :: "browser \<Rightarrow> tab \<Rightarrow> tab \<Rightarrow> error + int" where
  "tabCompare_TabOrganizer br a b =
     (case (url a, url b) of
        (Some ua, Some ub) \<Rightarrow>
          if ua = [] \<or> ub = [] then Inl NoUrlForSortedTab
          else (case urlHostname br ua of
                  None \<Rightarrow> Inl InvalidUrl
                | Some firstTabHostname \<Rightarrow>
                    (case urlHostname br ub of
                       None \<Rightarrow> Inl InvalidUrl
                     | Some secondTabHostname \<Rightarrow>
                         Inr (localeCompare br
                                (parseSharedDomain br firstTabHostname)
                                (parseSharedDomain br secondTabHostname))))
      | _ \<Rightarrow> Inl NoUrlForSortedTab)"

definition sortTabsAlphabetically_TabOrganizer :: "browser \<Rightarrow> tab list \<Rightarrow> error + tab list" where
  "sortTabsAlphabetically_TabOrganizer br tabs = arraySort (tabCompare_TabOrganizer br) tabs"

definition addTabId_TabOrganizer ::
  "browser \<Rightarrow> (string \<times> int option list) list \<Rightarrow> tab
     \<Rightarrow> error + (string \<times> int option list) list" where
  "addTabId_TabOrganizer br tabIdsByDomain t =
     (case url t of
        None \<Rightarrow> Inr tabIdsByDomain
      | Some u \<Rightarrow>
          if u = [] then Inr tabIdsByDomain
          else (case urlHostname br u of
                  None \<Rightarrow> Inl InvalidUrl
                | Some hostname \<Rightarrow>
                    (let parsed = parseSharedDomain br hostname;
                         domain = (if parsed = [] then ''system'' else parsed)
                     in case map_of tabIdsByDomain domain of
                          Some ids \<Rightarrow>
                            Inr (AList.update domain (ids @ [tab_id t]) tabIdsByDomain)
                        | None \<Rightarrow>
                            if domain = ''__proto__'' \<or> domain \<in> set objectPrototypeMethods
                            then Inl NotAFunction
                            else Inr (AList.update domain [tab_id t] tabIdsByDomain))))"

fun addTabIds_TabOrganizer ::
  "browser \<Rightarrow> (string \<times> int option list) list \<Rightarrow> tab list
     \<Rightarrow> error + (string \<times> int option list) list" where
  "addTabIds_TabOrganizer br tabIdsByDomain [] = Inr tabIdsByDomain"
| "addTabIds_TabOrganizer br tabIdsByDomain (t # ts) =
     (case addTabId_TabOrganizer br tabIdsByDomain t of
        Inl e \<Rightarrow> Inl e
      | Inr tabIdsByDomain' \<Rightarrow> addTabIds_TabOrganizer br tabIdsByDomain' ts)"

definition sortTabIdsByDomain_TabOrganizer ::
  "browser \<Rightarrow> tab list \<Rightarrow> error + (string \<times> int option list) list" where
  "sortTabIdsByDomain_TabOrganizer br tabs = addTabIds_TabOrganizer br [] tabs"

text \<open>
  \<open>TabOrganizer.renderBrowserTabGroups\<close>: one bucket per
  domain, and the index of the \<open>forEach\<close> over \<open>[...realGroups, ...orphanGroups]\<close> is the
  colour index.
\<close>

fun renderGroupsFrom_TabOrganizer :: "int \<Rightarrow> (string \<times> int option list) list \<Rightarrow> command_TabOrganizer list" where
  "renderGroupsFrom_TabOrganizer idx [] = []"
| "renderGroupsFrom_TabOrganizer idx ((groupName, tabIds) # rest) =
     (if length tabIds < 2 then UngroupTO tabIds else AddNewGroupTO idx groupName tabIds)
     # renderGroupsFrom_TabOrganizer (idx + 1) rest"

definition renderBrowserTabGroups_TabOrganizer ::
  "(string \<times> int option list) list \<Rightarrow> command_TabOrganizer list" where
  "renderBrowserTabGroups_TabOrganizer tabIdsByGroup =
     (let groups = objectEntries stringIndex tabIdsByGroup;
          realGroups = filter (\<lambda>(groupName, tabIds). length tabIds > 1) groups;
          orphanGroups = filter (\<lambda>(groupName, tabIds). \<not> length tabIds > 1) groups
      in renderGroupsFrom_TabOrganizer 0 (realGroups @ orphanGroups))"

definition groupsOf_TabOrganizer :: "command_TabOrganizer list \<Rightarrow> (string \<times> int) list" where
  "groupsOf_TabOrganizer cmds =
     List.map_filter (\<lambda>c. case c of AddNewGroupTO i n ids \<Rightarrow> Some (n, i) | _ \<Rightarrow> None) cmds"

fun reorderBrowserTabs_TabOrganizer :: "tab list \<Rightarrow> command_TabOrganizer list \<times> error option" where
  "reorderBrowserTabs_TabOrganizer [] = ([], None)"
| "reorderBrowserTabs_TabOrganizer (t # ts) =
     (case tab_id t of
        None \<Rightarrow> ([], Some NoIdForSortedTab)
      | Some i \<Rightarrow>
          if i = 0 then ([], Some NoIdForSortedTab)
          else (let (cs, err) = reorderBrowserTabs_TabOrganizer ts in (MoveTO i # cs, err)))"

definition organizeAllTabs ::
  "browser \<Rightarrow> string option \<Rightarrow> tab list \<Rightarrow> command_TabOrganizer list \<times> error option" where
  "organizeAllTabs br lastError tabs =
     (case lastError of
        Some e \<Rightarrow> ([], Some (LastError e))
      | None \<Rightarrow>
          (case sortTabsAlphabetically_TabOrganizer br tabs of
             Inl e \<Rightarrow> ([], Some e)
           | Inr sortedTabs \<Rightarrow>
               (case reorderBrowserTabs_TabOrganizer sortedTabs of
                  (moves, Some e) \<Rightarrow> (moves, Some e)
                | (moves, None) \<Rightarrow>
                    (case sortTabIdsByDomain_TabOrganizer br sortedTabs of
                       Inl e \<Rightarrow> (moves, Some e)
                     | Inr tabIdsByDomain \<Rightarrow>
                         (moves @ renderBrowserTabGroups_TabOrganizer tabIdsByDomain, None)))))"

section \<open>Notions used to state the properties\<close>

text \<open>The order the sort is to produce on labels: "new" last, the others by \<open>localeCompare\<close>.\<close>

definition newLastOrder :: "(string \<Rightarrow> string \<Rightarrow> int) \<Rightarrow> string \<Rightarrow> string \<Rightarrow> bool" where
  "newLastOrder lc a b = (b = ''new'' \<or> (a \<noteq> ''new'' \<and> lc a b \<le> 0))"

text \<open>
  What is assumed of \<open>localeCompare\<close>: it compares by a total preorder (any two strings
  are comparable, and "not greater" is transitive).
\<close>

definition consistentComparator :: "(string \<Rightarrow> string \<Rightarrow> int) \<Rightarrow> bool" where
  "consistentComparator lc =
     ((\<forall>a b. lc a b \<le> 0 \<or> lc b a \<le> 0) \<and>
      (\<forall>a b c. lc a b \<le> 0 \<longrightarrow> lc b c \<le> 0 \<longrightarrow> lc a c \<le> 0))"

text \<open>A tab whose \<open>url\<close> the test \<open>!url\<close> rejects.\<close>

definition hasNoUrl :: "tab \<Rightarrow> bool" where
  "hasNoUrl t = (url t = None \<or> url t = Some [])"

definition isMove :: "command \<Rightarrow> bool" where
  "isMove c = (case c of Move i \<Rightarrow> True | _ \<Rightarrow> False)"

text \<open>The groups a pass asks for, in order: bucket (domain, window) and colour index.\<close>

definition groupsOf :: "command list \<Rightarrow> ((string \<times> nat) \<times> int) list" where
  "groupsOf cmds =
     List.map_filter
       (\<lambda>c. case c of
              AddNewGroup i n ids w \<Rightarrow> Some ((n, w), i)
            | AddNewGroupOfTab i n tabId w \<Rightarrow> Some ((n, w), i)
            | _ \<Rightarrow> None) cmds"

fun numberFrom :: "int \<Rightarrow> 'a list \<Rightarrow> ('a \<times> int) list" where
  "numberFrom i [] = []"
| "numberFrom i (x # xs) = (x, i) # numberFrom (i + 1) xs"

text \<open>
  The test \<open>tabIds.length < 2\<close> that sends a bucket to \<open>tabs.ungroup\<close>, and the buckets
  that pass it, for which a group is asked, in the order of the keys.
\<close>

definition isOrphanGroup :: "bucket \<Rightarrow> bool" where
  "isOrphanGroup tabIds = (case tabIds of TabIds ids \<Rightarrow> length ids < 2 | TabId n \<Rightarrow> False)"

definition realBuckets :: "tabIdsByDomain \<Rightarrow> (string \<times> nat) list" where
  "realBuckets entries =
     concat (map (\<lambda>(n, byWindow).
                    map (\<lambda>(w, ids). (n, w))
                      (filter (\<lambda>(w, ids). \<not> isOrphanGroup ids) (objectEntries numberIndex byWindow)))
                 entries)"

text \<open>The list \<open>[...realGroups, ...orphanGroups]\<close> of a window object.\<close>

definition orderedGroups :: "(nat \<times> bucket) list \<Rightarrow> (nat \<times> bucket) list" where
  "orderedGroups byWindow =
     filter (\<lambda>(windowId, tabIds). isRealGroup tabIds) (objectEntries numberIndex byWindow)
     @ filter (\<lambda>(windowId, tabIds). \<not> isRealGroup tabIds) (objectEntries numberIndex byWindow)"

text \<open>
  The tab ids of a bucket (domain label, window id) of a list of tabs, in the order of the
  list; and the array that an object of buckets holds for a bucket.
\<close>

definition tabIdsOfBucket :: "browser \<Rightarrow> tab list \<Rightarrow> string \<Rightarrow> nat \<Rightarrow> int list" where
  "tabIdsOfBucket br tabs name w =
     List.map_filter tab_id
       (filter (\<lambda>t. domainOfTab br t = Some name \<and> windowId t = w) tabs)"

definition bucketOf :: "tabIdsByDomain \<Rightarrow> string \<Rightarrow> nat \<Rightarrow> bucket option" where
  "bucketOf tabIdsByDomain name w =
     (case map_of tabIdsByDomain name of
        None \<Rightarrow> None
      | Some byWindow \<Rightarrow> map_of byWindow w)"

text \<open>
  Stand-ins for the collaborators, for the examples: the host name of an
  \<open>https\<close> URL, the identity for \<open>parseSharedDomain\<close>, the comparison of strings by
  their code units, and the palette of Chrome.
\<close>

definition sampleHostname :: "string \<Rightarrow> string option" where
  "sampleHostname u =
     (if take 8 u = ''https://'' then Some (takeWhile (\<lambda>c. c \<noteq> CHR ''/'') (drop 8 u))
      else None)"

definition codeUnitCompare :: "string \<Rightarrow> string \<Rightarrow> int" where
  "codeUnitCompare a b = (if a < b then - 1 else if b < a then 1 else 0)"

definition sampleBrowser :: browser where
  "sampleBrowser =
     \<lparr>urlHostname = sampleHostname,
      parseSharedDomain = (\<lambda>hostname. hostname),
      localeCompare = codeUnitCompare,
      colors = [''grey'', ''blue'', ''red'', ''yellow'', ''green'', ''pink'', ''purple'',
                ''cyan'', ''orange''],
      isTabGroupingSupported = True\<rparr>"

definition sampleTab :: "int \<Rightarrow> string \<Rightarrow> nat \<Rightarrow> tab" where
  "sampleTab i u w = \<lparr>tab_id = Some i, url = Some u, windowId = w, pinned = False\<rparr>"

definition urlLessTab :: "int \<Rightarrow> nat \<Rightarrow> tab" where
  "urlLessTab i w = \<lparr>tab_id = Some i, url = None, windowId = w, pinned = False\<rparr>"

text \<open>
  Stand-ins for \<open>JSON.parse\<close> and \<open>JSON.stringify\<close>, for the examples: the parser knows
  three blobs; the serializer prints a flat state of booleans.
\<close>

definition sampleJsonParse :: "string \<Rightarrow> json option" where
  \<open>sampleJsonParse s =
     (if s = ''{"enableAutomaticSorting":false}''
        then Some (JObj [(''enableAutomaticSorting'', JBool False)])
      else if s = ''{"enableAlphabeticSorting":true,"theme":"dark","enableAutomaticSorting":false}''
        then Some (JObj [(''enableAlphabeticSorting'', JBool True), (''theme'', JStr ''dark''),
                         (''enableAutomaticSorting'', JBool False)])
      else if s = ''{"enableAlphabeticSorting":false}''
        then Some (JObj [(''enableAlphabeticSorting'', JBool False)])
      else None)\<close>

definition sampleStringify :: "mkState \<Rightarrow> string" where
  \<open>sampleStringify st =
     ''{'' @ concat (map (\<lambda>(k, v). ''"'' @ k @ ''":''
                          @ (case v of JBool True \<Rightarrow> ''true'' | JBool False \<Rightarrow> ''false''
                             | _ \<Rightarrow> ''null'') @ '','') st) @ ''}''\<close>

section \<open>The sort of \<open>organize\<close>\<close>

lemma insertSorted_mset:
  "insertSorted cmp x ys = Inr zs \<Longrightarrow> mset zs = add_mset x (mset ys)"
  by (induction ys arbitrary: zs) (auto split: sum.splits if_splits)

lemma insertSorted_total:
  "\<forall>y\<in>set ys. \<exists>c. cmp x y = Inr c \<Longrightarrow> \<exists>zs. insertSorted cmp x ys = Inr zs"
  by (induction ys) (auto split: sum.splits if_splits)

lemma insertSorted_sorted:
  assumes "insertSorted cmp x ys = Inr zs"
      and "sorted_wrt le ys"
      and "\<And>y c. y \<in> set ys \<Longrightarrow> cmp x y = Inr c \<Longrightarrow> c \<le> 0 \<Longrightarrow> le x y"
      and "\<And>y c. y \<in> set ys \<Longrightarrow> cmp x y = Inr c \<Longrightarrow> 0 < c \<Longrightarrow> le y x"
      and "\<And>y z. y \<in> set ys \<Longrightarrow> z \<in> set ys \<Longrightarrow> le x y \<Longrightarrow> le y z \<Longrightarrow> le x z"
  shows "sorted_wrt le zs"
  using assms
proof (induction ys arbitrary: zs)
  case Nil
  then show ?case by auto
next
  case (Cons y ys)
  obtain c where c: "cmp x y = Inr c"
    using Cons.prems(1) by (auto split: sum.splits)
  show ?case
  proof (cases "c \<le> 0")
    case True
    then have zs: "zs = x # y # ys" using Cons.prems(1) c by simp
    have xy: "le x y" using Cons.prems(3)[of y c] c True by simp
    have "\<forall>z\<in>set ys. le x z"
      using Cons.prems(2) Cons.prems(5)[of y] xy by auto
    then show ?thesis using zs xy Cons.prems(2) by simp
  next
    case False
    then obtain zs' where r: "insertSorted cmp x ys = Inr zs'" and zs: "zs = y # zs'"
      using Cons.prems(1) c by (auto split: sum.splits)
    have s: "sorted_wrt le zs'"
    proof (rule Cons.IH[OF r])
      show "sorted_wrt le ys" using Cons.prems(2) by simp
    next
      fix a c assume "a \<in> set ys" "cmp x a = Inr c" "c \<le> 0"
      then show "le x a" using Cons.prems(3)[of a c] by simp
    next
      fix a c assume "a \<in> set ys" "cmp x a = Inr c" "0 < c"
      then show "le a x" using Cons.prems(4)[of a c] by simp
    next
      fix a b assume "a \<in> set ys" "b \<in> set ys" "le x a" "le a b"
      then show "le x b" using Cons.prems(5)[of a b] by simp
    qed
    have "set zs' = insert x (set ys)"
      using insertSorted_mset[OF r] by (metis set_mset_add_mset_insert set_mset_mset)
    moreover have "le y x" using Cons.prems(4)[of y c] c False by simp
    ultimately show ?thesis using zs s Cons.prems(2) by auto
  qed
qed

lemma insertSorted_filter:
  assumes "insertSorted cmp x ys = Inr zs"
      and "\<And>y c. y \<in> set ys \<Longrightarrow> cmp x y = Inr c \<Longrightarrow> 0 < c \<Longrightarrow> k y \<noteq> k x"
  shows "filter (\<lambda>t. k t = d) zs = filter (\<lambda>t. k t = d) (x # ys)"
  using assms
proof (induction ys arbitrary: zs)
  case Nil
  then show ?case by auto
next
  case (Cons y ys)
  obtain c where c: "cmp x y = Inr c"
    using Cons.prems(1) by (auto split: sum.splits)
  show ?case
  proof (cases "c \<le> 0")
    case True
    then show ?thesis using Cons.prems(1) c by simp
  next
    case False
    then obtain zs' where r: "insertSorted cmp x ys = Inr zs'" and zs: "zs = y # zs'"
      using Cons.prems(1) c by (auto split: sum.splits)
    have ih: "filter (\<lambda>t. k t = d) zs' = filter (\<lambda>t. k t = d) (x # ys)"
    proof (rule Cons.IH[OF r])
      fix a c assume "a \<in> set ys" "cmp x a = Inr c" "0 < c"
      then show "k a \<noteq> k x" using Cons.prems(2)[of a c] by simp
    qed
    have "k y \<noteq> k x" using Cons.prems(2)[of y c] c False by simp
    then show ?thesis using zs ih by auto
  qed
qed

lemma arraySort_mset:
  "arraySort cmp xs = Inr ys \<Longrightarrow> mset ys = mset xs"
  by (induction xs arbitrary: ys) (auto split: sum.splits dest: insertSorted_mset)

lemma arraySort_set:
  "arraySort cmp xs = Inr ys \<Longrightarrow> set ys = set xs"
  by (rule mset_eq_setD) (rule arraySort_mset)

lemma arraySort_total:
  "\<forall>x\<in>set xs. \<forall>y\<in>set xs. \<exists>c. cmp x y = Inr c \<Longrightarrow> \<exists>ys. arraySort cmp xs = Inr ys"
proof (induction xs)
  case Nil
  then show ?case by simp
next
  case (Cons x xs)
  have "\<forall>x\<in>set xs. \<forall>y\<in>set xs. \<exists>c. cmp x y = Inr c"
    using Cons.prems by simp
  then obtain ys where ys: "arraySort cmp xs = Inr ys"
    using Cons.IH by blast
  have "\<forall>y\<in>set ys. \<exists>c. cmp x y = Inr c"
    using Cons.prems arraySort_set[OF ys] by simp
  then obtain zs where "insertSorted cmp x ys = Inr zs"
    using insertSorted_total[of ys cmp x] by blast
  then show ?case
    using ys by simp
qed

lemma arraySort_sorted:
  assumes "arraySort cmp xs = Inr ys"
      and "\<And>x y c. x \<in> set xs \<Longrightarrow> y \<in> set xs \<Longrightarrow> cmp x y = Inr c \<Longrightarrow> c \<le> 0 \<Longrightarrow> le x y"
      and "\<And>x y c. x \<in> set xs \<Longrightarrow> y \<in> set xs \<Longrightarrow> cmp x y = Inr c \<Longrightarrow> 0 < c \<Longrightarrow> le y x"
      and "\<And>x y z. x \<in> set xs \<Longrightarrow> y \<in> set xs \<Longrightarrow> z \<in> set xs \<Longrightarrow> le x y \<Longrightarrow> le y z \<Longrightarrow> le x z"
  shows "sorted_wrt le ys"
  using assms
proof (induction xs arbitrary: ys)
  case Nil
  show ?case using Nil.prems(1) by simp
next
  case (Cons x xs)
  obtain ys' where ys': "arraySort cmp xs = Inr ys'" and ins: "insertSorted cmp x ys' = Inr ys"
    using Cons.prems(1) by (auto split: sum.splits)
  have set': "set ys' = set xs" by (rule arraySort_set[OF ys'])
  have s': "sorted_wrt le ys'"
  proof (rule Cons.IH[OF ys'])
    fix a b c assume "a \<in> set xs" "b \<in> set xs" "cmp a b = Inr c" "c \<le> 0"
    then show "le a b" using Cons.prems(2)[of a b c] by simp
  next
    fix a b c assume "a \<in> set xs" "b \<in> set xs" "cmp a b = Inr c" "0 < c"
    then show "le b a" using Cons.prems(3)[of a b c] by simp
  next
    fix a b c assume "a \<in> set xs" "b \<in> set xs" "c \<in> set xs" "le a b" "le b c"
    then show "le a c" using Cons.prems(4)[of a b c] by simp
  qed
  show ?case
  proof (rule insertSorted_sorted[OF ins s'])
    fix y c assume "y \<in> set ys'" "cmp x y = Inr c" "c \<le> 0"
    then show "le x y" using Cons.prems(2)[of x y c] set' by simp
  next
    fix y c assume "y \<in> set ys'" "cmp x y = Inr c" "0 < c"
    then show "le y x" using Cons.prems(3)[of x y c] set' by simp
  next
    fix y z assume "y \<in> set ys'" "z \<in> set ys'" "le x y" "le y z"
    then show "le x z" using Cons.prems(4)[of x y z] set' by simp
  qed
qed

lemma arraySort_filter:
  assumes "arraySort cmp xs = Inr ys"
      and "\<And>x y c. x \<in> set xs \<Longrightarrow> y \<in> set xs \<Longrightarrow> cmp x y = Inr c \<Longrightarrow> 0 < c \<Longrightarrow> k y \<noteq> k x"
  shows "filter (\<lambda>t. k t = d) ys = filter (\<lambda>t. k t = d) xs"
  using assms
proof (induction xs arbitrary: ys)
  case Nil
  then show ?case by simp
next
  case (Cons x xs)
  obtain ys' where ys': "arraySort cmp xs = Inr ys'" and ins: "insertSorted cmp x ys' = Inr ys"
    using Cons.prems(1) by (auto split: sum.splits)
  have set': "set ys' = set xs" by (rule arraySort_set[OF ys'])
  have ih: "filter (\<lambda>t. k t = d) ys' = filter (\<lambda>t. k t = d) xs"
  proof (rule Cons.IH[OF ys'])
    fix a b c assume "a \<in> set xs" "b \<in> set xs" "cmp a b = Inr c" "0 < c"
    then show "k b \<noteq> k a" using Cons.prems(2)[of a b c] by simp
  qed
  have "filter (\<lambda>t. k t = d) ys = filter (\<lambda>t. k t = d) (x # ys')"
  proof (rule insertSorted_filter[OF ins])
    fix y c assume "y \<in> set ys'" "cmp x y = Inr c" "0 < c"
    then show "k y \<noteq> k x" using Cons.prems(2)[of x y c] set' by simp
  qed
  then show ?case using ih by simp
qed

lemma tabCompare_Inr:
  "domainOfTab br a = Some da \<Longrightarrow> domainOfTab br b = Some db \<Longrightarrow>
     tabCompare br a b = Inr (domainCompare (localeCompare br) da db)"
  by (auto simp: domainOfTab_def tabCompare_def split: option.splits if_splits)

lemma domainCompare_le:
  assumes "consistentComparator lc" and "domainCompare lc a b \<le> 0"
  shows "newLastOrder lc a b"
proof -
  have "lc a a \<le> 0"
    using assms(1) unfolding consistentComparator_def by blast
  then show ?thesis
    using assms(2) unfolding domainCompare_def newLastOrder_def
    by (auto split: if_splits)
qed

lemma domainCompare_gt:
  assumes "consistentComparator lc" and "0 < domainCompare lc a b"
  shows "newLastOrder lc b a \<and> a \<noteq> b"
proof -
  have "lc a b \<le> 0 \<or> lc b a \<le> 0"
    using assms(1) unfolding consistentComparator_def by blast
  then show ?thesis
    using assms(2) unfolding domainCompare_def newLastOrder_def
    by (auto split: if_splits)
qed

lemma newLastOrder_trans:
  assumes "consistentComparator lc" and "newLastOrder lc a b" and "newLastOrder lc b c"
  shows "newLastOrder lc a c"
proof -
  have "lc a b \<le> 0 \<Longrightarrow> lc b c \<le> 0 \<Longrightarrow> lc a c \<le> 0"
    using assms(1) unfolding consistentComparator_def by blast
  then show ?thesis
    using assms(2,3) unfolding newLastOrder_def by auto
qed

lemma tabCompare_total:
  assumes "\<forall>t\<in>set tabs. domainOfTab br t \<noteq> None"
      and "x \<in> set tabs" and "y \<in> set tabs"
  shows "\<exists>dx dy. domainOfTab br x = Some dx \<and> domainOfTab br y = Some dy
           \<and> tabCompare br x y = Inr (domainCompare (localeCompare br) dx dy)"
proof -
  obtain dx dy where d: "domainOfTab br x = Some dx" "domainOfTab br y = Some dy"
    using assms by blast
  show ?thesis using d tabCompare_Inr[OF d] by simp
qed

lemma reorderBrowserTabs_ok:
  "\<forall>t\<in>set ts. \<exists>i. tab_id t = Some i \<and> i \<noteq> 0 \<Longrightarrow>
     reorderBrowserTabs ts = (map Move (List.map_filter tab_id ts), None)"
  by (induction ts) (auto simp: List.map_filter_simps)

lemma organize_moves:
  assumes "sortTabsAlphabetically br tabs = Inr sortedTabs"
      and "\<forall>t\<in>set tabs. \<exists>i. tab_id t = Some i \<and> i \<noteq> 0"
  shows "\<exists>cs. fst (organize br None tabs) = map Move (List.map_filter tab_id sortedTabs) @ cs"
proof -
  have "set sortedTabs = set tabs"
    using assms(1) arraySort_set unfolding sortTabsAlphabetically_def by blast
  then have "reorderBrowserTabs sortedTabs = (map Move (List.map_filter tab_id sortedTabs), None)"
    using assms(2) reorderBrowserTabs_ok by simp
  then show ?thesis
    using assms(1) by (simp add: organize_def split: sum.splits)
qed

lemma codeUnitCompare_consistent: "consistentComparator codeUnitCompare"
  unfolding consistentComparator_def codeUnitCompare_def
  by (auto split: if_splits)

lemmas sample_simps =
  sampleBrowser_def sampleTab_def urlLessTab_def sampleHostname_def codeUnitCompare_def
  domainOfTab_def tabCompare_def domainCompare_def sortTabsAlphabetically_def

text \<open>
  Claim C1, as the code has it. The comparator of \<open>sortTabsAlphabetically\<close> throws
  "No url for sorted tab" when a tab it compares has no URL, so the claim holds for the tab
  sets in which every tab has a URL that the \<open>URL\<close> constructor accepts: for those the sort
  returns a permutation of the query's answer that is ordered by domain label under
  \<open>localeCompare\<close> with "new" last, the tabs of one label keep the order they had in the
  query, and \<open>organize\<close> moves the tabs in that order (when every tab has an id).
\<close>

theorem sortTabsAlphabetically_sorted_stable:
  assumes lc: "consistentComparator (localeCompare br)"
      and urls: "\<forall>t\<in>set tabs. domainOfTab br t \<noteq> None"
  shows "\<exists>sortedTabs. sortTabsAlphabetically br tabs = Inr sortedTabs
           \<and> mset sortedTabs = mset tabs
           \<and> sorted_wrt (\<lambda>a b. \<exists>da db. domainOfTab br a = Some da \<and> domainOfTab br b = Some db
                                  \<and> newLastOrder (localeCompare br) da db) sortedTabs
           \<and> (\<forall>d. filter (\<lambda>t. domainOfTab br t = d) sortedTabs
                    = filter (\<lambda>t. domainOfTab br t = d) tabs)
           \<and> ((\<forall>t\<in>set tabs. \<exists>i. tab_id t = Some i \<and> i \<noteq> 0) \<longrightarrow>
                (\<exists>cs. fst (organize br None tabs)
                        = map Move (List.map_filter tab_id sortedTabs) @ cs))"
proof -
  let ?cmp = "tabCompare br"
  let ?lc = "localeCompare br"
  let ?le = "\<lambda>a b. \<exists>da db. domainOfTab br a = Some da \<and> domainOfTab br b = Some db
                 \<and> newLastOrder ?lc da db"
  have cmp: "\<exists>dx dy. domainOfTab br x = Some dx \<and> domainOfTab br y = Some dy
         \<and> ?cmp x y = Inr (domainCompare ?lc dx dy)"
    if "x \<in> set tabs" "y \<in> set tabs" for x y
    by (rule tabCompare_total[OF urls that])
  have "\<exists>ys. arraySort ?cmp tabs = Inr ys"
  proof (rule arraySort_total, intro ballI)
    fix x y assume "x \<in> set tabs" "y \<in> set tabs"
    then show "\<exists>c. ?cmp x y = Inr c" using cmp[of x y] by blast
  qed
  then obtain ys where ys: "arraySort ?cmp tabs = Inr ys" ..
  have sorted: "sorted_wrt ?le ys"
  proof (rule arraySort_sorted[OF ys])
    fix x y c assume a: "x \<in> set tabs" "y \<in> set tabs" "?cmp x y = Inr c" "c \<le> 0"
    obtain dx dy where d: "domainOfTab br x = Some dx" "domainOfTab br y = Some dy"
        "?cmp x y = Inr (domainCompare ?lc dx dy)"
      using cmp[OF a(1,2)] by blast
    have "newLastOrder ?lc dx dy"
      by (rule domainCompare_le[OF lc]) (use a d in simp)
    then show "?le x y" using d by simp
  next
    fix x y c assume a: "x \<in> set tabs" "y \<in> set tabs" "?cmp x y = Inr c" "0 < c"
    obtain dx dy where d: "domainOfTab br x = Some dx" "domainOfTab br y = Some dy"
        "?cmp x y = Inr (domainCompare ?lc dx dy)"
      using cmp[OF a(1,2)] by blast
    have "newLastOrder ?lc dy dx \<and> dx \<noteq> dy"
      by (rule domainCompare_gt[OF lc]) (use a d in simp)
    then show "?le y x" using d by simp
  next
    fix x y z assume "?le x y" "?le y z"
    then obtain dx dy dz where d: "domainOfTab br x = Some dx" "domainOfTab br y = Some dy"
        "domainOfTab br z = Some dz" "newLastOrder ?lc dx dy" "newLastOrder ?lc dy dz"
      by auto
    have "newLastOrder ?lc dx dz"
      by (rule newLastOrder_trans[OF lc d(4,5)])
    then show "?le x z" using d by simp
  qed
  have stable: "filter (\<lambda>t. domainOfTab br t = d) ys = filter (\<lambda>t. domainOfTab br t = d) tabs" for d
  proof (rule arraySort_filter[OF ys])
    fix x y c assume a: "x \<in> set tabs" "y \<in> set tabs" "?cmp x y = Inr c" "0 < c"
    obtain dx dy where d: "domainOfTab br x = Some dx" "domainOfTab br y = Some dy"
        "?cmp x y = Inr (domainCompare ?lc dx dy)"
      using cmp[OF a(1,2)] by blast
    have "newLastOrder ?lc dy dx \<and> dx \<noteq> dy"
      by (rule domainCompare_gt[OF lc]) (use a d in simp)
    then show "domainOfTab br y \<noteq> domainOfTab br x" using d by auto
  qed
  have perm: "mset ys = mset tabs" by (rule arraySort_mset[OF ys])
  have run: "sortTabsAlphabetically br tabs = Inr ys"
    using ys by (simp add: sortTabsAlphabetically_def)
  have moves: "(\<forall>t\<in>set tabs. \<exists>i. tab_id t = Some i \<and> i \<noteq> 0) \<longrightarrow>
      (\<exists>cs. fst (organize br None tabs) = map Move (List.map_filter tab_id ys) @ cs)"
    using organize_moves[OF run] by blast
  show ?thesis
    using run perm sorted stable moves by blast
qed

text \<open>
  The example: four tabs, of which two share the label b.example and one is labelled
  "new"; the hypotheses of the theorem hold for them.
\<close>

theorem sortTabsAlphabetically_sorted_stable_witness:
  "sortTabsAlphabetically sampleBrowser
     [sampleTab 1 ''https://b.example/y'' 1, sampleTab 2 ''https://new/'' 1,
      sampleTab 3 ''https://a.example/x'' 2, sampleTab 4 ''https://b.example/z'' 1]
   = Inr [sampleTab 3 ''https://a.example/x'' 2, sampleTab 1 ''https://b.example/y'' 1,
          sampleTab 4 ''https://b.example/z'' 1, sampleTab 2 ''https://new/'' 1]
   \<and> (\<exists>sortedTabs.
        sortTabsAlphabetically sampleBrowser
          [sampleTab 1 ''https://b.example/y'' 1, sampleTab 2 ''https://new/'' 1,
           sampleTab 3 ''https://a.example/x'' 2, sampleTab 4 ''https://b.example/z'' 1]
        = Inr sortedTabs
        \<and> mset sortedTabs =
            mset [sampleTab 1 ''https://b.example/y'' 1, sampleTab 2 ''https://new/'' 1,
                  sampleTab 3 ''https://a.example/x'' 2, sampleTab 4 ''https://b.example/z'' 1]
        \<and> sorted_wrt (\<lambda>a b. \<exists>da db. domainOfTab sampleBrowser a = Some da
                \<and> domainOfTab sampleBrowser b = Some db
                \<and> newLastOrder (localeCompare sampleBrowser) da db) sortedTabs
        \<and> (\<forall>d. filter (\<lambda>t. domainOfTab sampleBrowser t = d) sortedTabs
               = filter (\<lambda>t. domainOfTab sampleBrowser t = d)
                   [sampleTab 1 ''https://b.example/y'' 1, sampleTab 2 ''https://new/'' 1,
                    sampleTab 3 ''https://a.example/x'' 2, sampleTab 4 ''https://b.example/z'' 1])
        \<and> (\<exists>cs. fst (organize sampleBrowser None
                   [sampleTab 1 ''https://b.example/y'' 1, sampleTab 2 ''https://new/'' 1,
                    sampleTab 3 ''https://a.example/x'' 2, sampleTab 4 ''https://b.example/z'' 1])
                 = map Move (List.map_filter tab_id sortedTabs) @ cs))"
proof -
  let ?tabs = "[sampleTab 1 ''https://b.example/y'' 1, sampleTab 2 ''https://new/'' 1,
      sampleTab 3 ''https://a.example/x'' 2, sampleTab 4 ''https://b.example/z'' 1]"
  have lc: "consistentComparator (localeCompare sampleBrowser)"
    using codeUnitCompare_consistent by (simp add: sampleBrowser_def)
  have urls: "\<forall>t\<in>set ?tabs. domainOfTab sampleBrowser t \<noteq> None"
    by (simp add: sample_simps)
  have ids: "\<forall>t\<in>set ?tabs. \<exists>i. tab_id t = Some i \<and> i \<noteq> 0"
    by (simp add: sampleTab_def)
  have run: "sortTabsAlphabetically sampleBrowser ?tabs
      = Inr [sampleTab 3 ''https://a.example/x'' 2, sampleTab 1 ''https://b.example/y'' 1,
          sampleTab 4 ''https://b.example/z'' 1, sampleTab 2 ''https://new/'' 1]"
    by (simp add: sample_simps)
  show ?thesis
    using run ids sortTabsAlphabetically_sorted_stable[OF lc urls] by blast
qed

text \<open>
  Claim C1 as it is worded, for every tab set, fails: with a tab that has no URL among two
  tabs, the comparator throws, \<open>organize\<close> issues no command and produces no sequence.
\<close>

theorem sort_fails_without_url:
  "sortTabsAlphabetically sampleBrowser
     [urlLessTab 1 1, sampleTab 2 ''https://a.example/x'' 1] = Inl NoUrlForSortedTab
   \<and> organize sampleBrowser None
     [urlLessTab 1 1, sampleTab 2 ''https://a.example/x'' 1] = ([], Some NoUrlForSortedTab)"
  by (simp add: sample_simps organize_def)

section \<open>Clustering: groups and orphans\<close>

lemma set_objectEntries [simp]: "set (objectEntries f obj) = set obj"
  by (auto simp: objectEntries_def)

lemma set_objectKeys: "set (objectKeys f obj) = fst ` set obj"
  by (simp add: objectKeys_def)

lemma set_orderedGroups [simp]: "set (orderedGroups byWindow) = set byWindow"
  by (auto simp: orderedGroups_def)

lemma fst_renderWindowGroups_TabIds:
  "fst (renderWindowGroups name idx ((w, TabIds ids) # rest) off) =
     (if length ids < 2 then Ungroup ids # fst (renderWindowGroups name idx rest (off + 1))
      else AddNewGroup (idx - off) name ids w # fst (renderWindowGroups name idx rest off))"
  by (simp split: prod.splits)

lemma fst_renderWindowGroups_TabId:
  "fst (renderWindowGroups name idx ((w, TabId n) # rest) off) =
     AddNewGroupOfTab (idx - off) name n w # fst (renderWindowGroups name idx rest off)"
  by (simp split: prod.splits)

lemma renderWindowGroups_AddNewGroup:
  "AddNewGroup i n ids w \<in> set (fst (renderWindowGroups name idx gs off)) \<Longrightarrow>
     n = name \<and> (w, TabIds ids) \<in> set gs \<and> 2 \<le> length ids"
proof (induction gs arbitrary: off)
  case Nil
  then show ?case by simp
next
  case (Cons g gs)
  obtain w' b' where g: "g = (w', b')" by (cases g)
  show ?case
  proof (cases b')
    case (TabIds ids')
    show ?thesis
      using Cons.prems Cons.IH unfolding g TabIds fst_renderWindowGroups_TabIds
      by (auto split: if_splits)
  next
    case (TabId n')
    show ?thesis
      using Cons.prems Cons.IH unfolding g TabId fst_renderWindowGroups_TabId
      by auto
  qed
qed

lemma renderWindowGroups_AddNewGroupOfTab:
  "AddNewGroupOfTab i n tabId w \<in> set (fst (renderWindowGroups name idx gs off)) \<Longrightarrow>
     n = name \<and> (w, TabId tabId) \<in> set gs"
proof (induction gs arbitrary: off)
  case Nil
  then show ?case by simp
next
  case (Cons g gs)
  obtain w' b' where g: "g = (w', b')" by (cases g)
  show ?case
  proof (cases b')
    case (TabIds ids')
    show ?thesis
      using Cons.prems Cons.IH unfolding g TabIds fst_renderWindowGroups_TabIds
      by (auto split: if_splits)
  next
    case (TabId n')
    show ?thesis
      using Cons.prems Cons.IH unfolding g TabId fst_renderWindowGroups_TabId
      by auto
  qed
qed

lemma renderWindowGroups_Ungroup:
  "Ungroup ids \<in> set (fst (renderWindowGroups name idx gs off)) \<Longrightarrow>
     (\<exists>w. (w, TabIds ids) \<in> set gs) \<and> length ids < 2"
proof (induction gs arbitrary: off)
  case Nil
  then show ?case by simp
next
  case (Cons g gs)
  obtain w' b' where g: "g = (w', b')" by (cases g)
  show ?case
  proof (cases b')
    case (TabIds ids')
    show ?thesis
      using Cons.prems Cons.IH unfolding g TabIds fst_renderWindowGroups_TabIds
      by (auto split: if_splits)
  next
    case (TabId n')
    show ?thesis
      using Cons.prems Cons.IH unfolding g TabId fst_renderWindowGroups_TabId
      by auto
  qed
qed

lemma renderWindowGroups_Move:
  "Move i \<notin> set (fst (renderWindowGroups name idx gs off))"
proof (induction gs arbitrary: off)
  case Nil
  then show ?case by simp
next
  case (Cons g gs)
  obtain w' b' where g: "g = (w', b')" by (cases g)
  show ?case
  proof (cases b')
    case (TabIds ids')
    show ?thesis
      using Cons.IH unfolding g TabIds fst_renderWindowGroups_TabIds
      by (auto split: if_splits)
  next
    case (TabId n')
    show ?thesis
      using Cons.IH unfolding g TabId fst_renderWindowGroups_TabId
      by auto
  qed
qed

lemma renderWindowGroups_orphan:
  "(w, TabIds ids) \<in> set gs \<Longrightarrow> length ids < 2 \<Longrightarrow>
     Ungroup ids \<in> set (fst (renderWindowGroups name idx gs off))"
proof (induction gs arbitrary: off)
  case Nil
  then show ?case by simp
next
  case (Cons g gs)
  obtain w' b' where g: "g = (w', b')" by (cases g)
  show ?case
  proof (cases b')
    case (TabIds ids')
    show ?thesis
      using Cons.prems Cons.IH unfolding g TabIds fst_renderWindowGroups_TabIds
      by (auto split: if_splits)
  next
    case (TabId n')
    show ?thesis
      using Cons.prems Cons.IH unfolding g TabId fst_renderWindowGroups_TabId
      by auto
  qed
qed

lemma renderWindowGroups_real:
  "(w, TabIds ids) \<in> set gs \<Longrightarrow> 2 \<le> length ids \<Longrightarrow>
     \<exists>i. AddNewGroup i name ids w \<in> set (fst (renderWindowGroups name idx gs off))"
proof (induction gs arbitrary: off)
  case Nil
  then show ?case by simp
next
  case (Cons g gs)
  obtain w' b' where g: "g = (w', b')" by (cases g)
  show ?case
  proof (cases "(w, TabIds ids) = (w', b')")
    case True
    then have g': "g = (w, TabIds ids)" using g by simp
    show ?thesis
      unfolding g' fst_renderWindowGroups_TabIds using Cons.prems(2) by auto
  next
    case False
    then have "(w, TabIds ids) \<in> set gs" using Cons.prems(1) g by auto
    then obtain i j where "AddNewGroup i name ids w \<in> set (fst (renderWindowGroups name idx gs off))"
        and "AddNewGroup j name ids w \<in> set (fst (renderWindowGroups name idx gs (off + 1)))"
      using Cons.IH[OF _ Cons.prems(2)] by blast
    then show ?thesis
    proof (cases b')
      case (TabIds ids')
      assume "AddNewGroup i name ids w \<in> set (fst (renderWindowGroups name idx gs off))"
        and "AddNewGroup j name ids w \<in> set (fst (renderWindowGroups name idx gs (off + 1)))"
      then show ?thesis
        unfolding g TabIds fst_renderWindowGroups_TabIds by auto
    next
      case (TabId n')
      assume "AddNewGroup i name ids w \<in> set (fst (renderWindowGroups name idx gs off))"
      then show ?thesis
        unfolding g TabId fst_renderWindowGroups_TabId by auto
    qed
  qed
qed

text \<open>The commands of the outer loop, name by name.\<close>

lemma renderNames_Cons:
  "renderNames ((name, byWindow) # rest) idx off =
     fst (renderWindowGroups name idx (orderedGroups byWindow) off)
     @ renderNames rest (idx + 1)
         (snd (renderWindowGroups name idx (orderedGroups byWindow) off))"
  by (simp add: Let_def orderedGroups_def split: prod.splits)

lemma renderNames_AddNewGroup:
  "AddNewGroup i n ids w \<in> set (renderNames d idx off) \<Longrightarrow>
     \<exists>byWindow. (n, byWindow) \<in> set d \<and> (w, TabIds ids) \<in> set byWindow \<and> 2 \<le> length ids"
proof (induction d arbitrary: idx off)
  case Nil
  then show ?case by simp
next
  case (Cons e d)
  obtain name byWindow where e: "e = (name, byWindow)" by (cases e)
  from Cons.prems show ?case
    unfolding e renderNames_Cons set_append
  proof (elim UnE)
    assume "AddNewGroup i n ids w
              \<in> set (fst (renderWindowGroups name idx (orderedGroups byWindow) off))"
    from renderWindowGroups_AddNewGroup[OF this]
    show "\<exists>bw. (n, bw) \<in> set ((name, byWindow) # d) \<and> (w, TabIds ids) \<in> set bw \<and> 2 \<le> length ids"
      by auto
  next
    assume "AddNewGroup i n ids w \<in> set (renderNames d (idx + 1)
         (snd (renderWindowGroups name idx (orderedGroups byWindow) off)))"
    from Cons.IH[OF this]
    show "\<exists>bw. (n, bw) \<in> set ((name, byWindow) # d) \<and> (w, TabIds ids) \<in> set bw \<and> 2 \<le> length ids"
      by auto
  qed
qed

lemma renderNames_AddNewGroupOfTab:
  "AddNewGroupOfTab i n tabId w \<in> set (renderNames d idx off) \<Longrightarrow>
     \<exists>byWindow. (n, byWindow) \<in> set d \<and> (w, TabId tabId) \<in> set byWindow"
proof (induction d arbitrary: idx off)
  case Nil
  then show ?case by simp
next
  case (Cons e d)
  obtain name byWindow where e: "e = (name, byWindow)" by (cases e)
  from Cons.prems show ?case
    unfolding e renderNames_Cons set_append
  proof (elim UnE)
    assume "AddNewGroupOfTab i n tabId w
              \<in> set (fst (renderWindowGroups name idx (orderedGroups byWindow) off))"
    from renderWindowGroups_AddNewGroupOfTab[OF this]
    show "\<exists>bw. (n, bw) \<in> set ((name, byWindow) # d) \<and> (w, TabId tabId) \<in> set bw"
      by auto
  next
    assume "AddNewGroupOfTab i n tabId w \<in> set (renderNames d (idx + 1)
         (snd (renderWindowGroups name idx (orderedGroups byWindow) off)))"
    from Cons.IH[OF this]
    show "\<exists>bw. (n, bw) \<in> set ((name, byWindow) # d) \<and> (w, TabId tabId) \<in> set bw"
      by auto
  qed
qed

lemma renderNames_Ungroup:
  "Ungroup ids \<in> set (renderNames d idx off) \<Longrightarrow>
     \<exists>n byWindow w. (n, byWindow) \<in> set d \<and> (w, TabIds ids) \<in> set byWindow \<and> length ids < 2"
proof (induction d arbitrary: idx off)
  case Nil
  then show ?case by simp
next
  case (Cons e d)
  obtain name byWindow where e: "e = (name, byWindow)" by (cases e)
  from Cons.prems show ?case
    unfolding e renderNames_Cons set_append
  proof (elim UnE)
    assume "Ungroup ids \<in> set (fst (renderWindowGroups name idx (orderedGroups byWindow) off))"
    from renderWindowGroups_Ungroup[OF this]
    show "\<exists>n bw w. (n, bw) \<in> set ((name, byWindow) # d) \<and> (w, TabIds ids) \<in> set bw \<and> length ids < 2"
      by auto
  next
    assume "Ungroup ids \<in> set (renderNames d (idx + 1)
         (snd (renderWindowGroups name idx (orderedGroups byWindow) off)))"
    from Cons.IH[OF this]
    show "\<exists>n bw w. (n, bw) \<in> set ((name, byWindow) # d) \<and> (w, TabIds ids) \<in> set bw \<and> length ids < 2"
      by auto
  qed
qed

lemma renderNames_Move: "Move i \<notin> set (renderNames d idx off)"
proof (induction d arbitrary: idx off)
  case Nil
  then show ?case by simp
next
  case (Cons e d)
  obtain name byWindow where e: "e = (name, byWindow)" by (cases e)
  show ?case
    unfolding e renderNames_Cons using Cons.IH renderWindowGroups_Move by simp
qed

lemma renderNames_bucket:
  assumes "(n, byWindow) \<in> set d" and "(w, TabIds ids) \<in> set byWindow"
  shows "(length ids < 2 \<longrightarrow> Ungroup ids \<in> set (renderNames d idx off))
       \<and> (2 \<le> length ids \<longrightarrow> (\<exists>i. AddNewGroup i n ids w \<in> set (renderNames d idx off)))"
  using assms(1)
proof (induction d arbitrary: idx off)
  case Nil
  then show ?case by simp
next
  case (Cons e d)
  obtain name bw where e: "e = (name, bw)" by (cases e)
  show ?case
  proof (cases "(n, byWindow) = (name, bw)")
    case True
    have mem: "(w, TabIds ids) \<in> set (orderedGroups bw)"
      using assms(2) True by simp
    have "length ids < 2 \<longrightarrow>
        Ungroup ids \<in> set (fst (renderWindowGroups name idx (orderedGroups bw) off))"
      using renderWindowGroups_orphan[OF mem] by blast
    moreover have "2 \<le> length ids \<longrightarrow>
        (\<exists>i. AddNewGroup i name ids w
                \<in> set (fst (renderWindowGroups name idx (orderedGroups bw) off)))"
      using renderWindowGroups_real[OF mem] by blast
    ultimately show ?thesis
      unfolding e renderNames_Cons using True by auto
  next
    case False
    then have "(n, byWindow) \<in> set d" using Cons.prems e by auto
    from Cons.IH[OF this] show ?thesis
      unfolding e renderNames_Cons by auto
  qed
qed

lemma renderBrowserTabGroups_AddNewGroup:
  "AddNewGroup i n ids w \<in> set (renderBrowserTabGroups d) \<Longrightarrow>
     \<exists>byWindow. (n, byWindow) \<in> set d \<and> (w, TabIds ids) \<in> set byWindow \<and> 2 \<le> length ids"
  unfolding renderBrowserTabGroups_def
  using renderNames_AddNewGroup[of i n ids w "objectEntries stringIndex d" 0 0] by simp

lemma renderBrowserTabGroups_AddNewGroupOfTab:
  "AddNewGroupOfTab i n tabId w \<in> set (renderBrowserTabGroups d) \<Longrightarrow>
     \<exists>byWindow. (n, byWindow) \<in> set d \<and> (w, TabId tabId) \<in> set byWindow"
  unfolding renderBrowserTabGroups_def
  using renderNames_AddNewGroupOfTab[of i n tabId w "objectEntries stringIndex d" 0 0] by simp

lemma renderBrowserTabGroups_Ungroup:
  "Ungroup ids \<in> set (renderBrowserTabGroups d) \<Longrightarrow>
     \<exists>n byWindow w. (n, byWindow) \<in> set d \<and> (w, TabIds ids) \<in> set byWindow \<and> length ids < 2"
  unfolding renderBrowserTabGroups_def
  using renderNames_Ungroup[of ids "objectEntries stringIndex d" 0 0] by simp

lemma renderBrowserTabGroups_bucket:
  assumes "(n, byWindow) \<in> set d" and "(w, TabIds ids) \<in> set byWindow"
  shows "(length ids < 2 \<longrightarrow> Ungroup ids \<in> set (renderBrowserTabGroups d))
       \<and> (2 \<le> length ids \<longrightarrow> (\<exists>i. AddNewGroup i n ids w \<in> set (renderBrowserTabGroups d)))"
  unfolding renderBrowserTabGroups_def
  using renderNames_bucket[of n byWindow "objectEntries stringIndex d" w ids 0 0] assms by simp

lemma reorderBrowserTabs_isMove:
  "c \<in> set (fst (reorderBrowserTabs ts)) \<Longrightarrow> isMove c"
  by (induction ts arbitrary: c) (auto simp: isMove_def split: option.splits if_splits prod.splits)

lemma set_update_cases:
  "x \<in> set (AList.update k v al) \<Longrightarrow> x = (k, v) \<or> x \<in> set al"
  by (induction al) (auto split: if_splits)

text \<open>
  What a step of \<open>sortTabIdsByDomain\<close> does to the own properties: nothing, or it sets one
  label to a window object, which is new, or a window object of the label, or the elements
  of an array, with the window id of the tab set.
\<close>

lemma addTabId_shape:
  assumes "addTabId br (d, p) t = Inr (d', p')"
  shows "d' = d
       \<or> (\<exists>domain bw b. d' = AList.update domain (AList.update (windowId t) b bw) d
             \<and> (map_of d domain = Some bw \<or> bw = [] \<or> (\<exists>ids. bw = arrayProperties ids)))"
proof -
  obtain i u hostname where
      i: "tab_id t = Some i" "i \<noteq> 0" and u: "url t = Some u" "u \<noteq> []"
      and h: "urlHostname br u = Some hostname"
    using assms by (auto simp: addTabId_def split: option.splits if_splits)
  define domain where "domain = parseSharedDomain br hostname"
  show ?thesis
  proof (cases "map_of d domain")
    case (Some bw)
    then have "\<exists>b. d' = AList.update domain (AList.update (windowId t) b bw) d"
      using assms i u h
      by (auto simp: addTabId_def domain_def Let_def split: option.splits bucket.splits if_splits)
    then show ?thesis using Some by blast
  next
    case None
    show ?thesis
    proof (cases "domain = ''__proto__''")
      case True
      then have "d' = d"
        using assms i u h None
        by (auto simp: addTabId_def domain_def Let_def split: option.splits)
      then show ?thesis by simp
    next
      case False
      have new: "AList.update domain [(windowId t, b)] d
                 = AList.update domain (AList.update (windowId t) b []) d" for b
        by simp
      show ?thesis
      proof (cases "inheritedProperty p domain")
        case NotInherited
        then have "d' = AList.update domain (AList.update (windowId t) (TabIds [i]) []) d"
          using assms i u h None False
          by (simp add: addTabId_def domain_def Let_def)
        then show ?thesis by blast
      next
        case InheritedMethod
        then have "d' = AList.update domain (AList.update (windowId t) (TabIds [i]) []) d"
          using assms i u h None False
          by (simp add: addTabId_def domain_def Let_def)
        then show ?thesis by blast
      next
        case (InheritedArray ids)
        then have "d' = AList.update domain
                          (AList.update (windowId t) (TabIds [i]) (arrayProperties ids)) d"
          using assms i u h None False
          by (simp add: addTabId_def domain_def Let_def split: if_splits)
        then show ?thesis by blast
      qed
    qed
  qed
qed

text \<open>The keys of the object built by \<open>sortTabIdsByDomain\<close> are distinct, at both levels.\<close>

lemma distinct_arrayProperties: "distinct (map fst (arrayProperties ids))"
  by (simp add: arrayProperties_def)

lemma addTabId_distinct:
  assumes "addTabId br (d, p) t = Inr (d', p')"
      and "distinct (map fst d)"
      and "\<forall>(n, byWindow)\<in>set d. distinct (map fst byWindow)"
  shows "distinct (map fst d') \<and> (\<forall>(n, byWindow)\<in>set d'. distinct (map fst byWindow))"
proof -
  consider (same) "d' = d"
    | (set) domain bw b where
        "d' = AList.update domain (AList.update (windowId t) b bw) d"
        "map_of d domain = Some bw \<or> bw = [] \<or> (\<exists>ids. bw = arrayProperties ids)"
    using addTabId_shape[OF assms(1)] by blast
  then show ?thesis
  proof cases
    case same
    then show ?thesis using assms(2,3) by simp
  next
    case (set domain bw b)
    note d' = set(1)
    have "distinct (map fst bw)"
    proof (cases "map_of d domain = Some bw")
      case True
      from map_of_SomeD[OF this] show ?thesis using assms(3) by auto
    next
      case False
      then show ?thesis using set(2) by (auto simp: distinct_arrayProperties)
    qed
    then have new: "distinct (map fst (AList.update (windowId t) b bw))"
      by (rule distinct_update)
    have "distinct (map fst d')"
      unfolding d' using assms(2) by (rule distinct_update)
    moreover have "\<forall>(n, byWindow)\<in>set d'. distinct (map fst byWindow)"
    proof (clarify)
      fix n byWindow assume "(n, byWindow) \<in> set d'"
      then have "(n, byWindow) = (domain, AList.update (windowId t) b bw) \<or> (n, byWindow) \<in> set d"
        unfolding d' by (rule set_update_cases)
      then show "distinct (map fst byWindow)"
        using new assms(3) by auto
    qed
    ultimately show ?thesis by simp
  qed
qed

lemma addTabIds_distinct:
  assumes "addTabIds br (d, p) ts = Inr (d', p')"
      and "distinct (map fst d)"
      and "\<forall>(n, byWindow)\<in>set d. distinct (map fst byWindow)"
  shows "distinct (map fst d') \<and> (\<forall>(n, byWindow)\<in>set d'. distinct (map fst byWindow))"
  using assms
proof (induction ts arbitrary: d p)
  case Nil
  then show ?case by simp
next
  case (Cons t ts)
  obtain d1 p1 where d1: "addTabId br (d, p) t = Inr (d1, p1)"
      and rest: "addTabIds br (d1, p1) ts = Inr (d', p')"
    using Cons.prems(1) by (auto split: sum.splits)
  have "distinct (map fst d1) \<and> (\<forall>(n, byWindow)\<in>set d1. distinct (map fst byWindow))"
    by (rule addTabId_distinct[OF d1 Cons.prems(2,3)])
  then show ?case
    using Cons.IH[OF rest] by blast
qed

lemma sortTabIdsByDomain_Inr:
  "sortTabIdsByDomain br ts = Inr d \<Longrightarrow> \<exists>p. addTabIds br ([], None) ts = Inr (d, p)"
  by (auto simp: sortTabIdsByDomain_def split: sum.splits)

lemma sortTabIdsByDomain_distinct:
  assumes "sortTabIdsByDomain br ts = Inr d"
  shows "distinct (map fst d) \<and> (\<forall>(n, byWindow)\<in>set d. distinct (map fst byWindow))"
proof -
  obtain p where "addTabIds br ([], None) ts = Inr (d, p)"
    using sortTabIdsByDomain_Inr[OF assms] by blast
  from addTabIds_distinct[OF this] show ?thesis by simp
qed

text \<open>
  As long as no tab has the label "__proto__", the prototype stays \<open>Object.prototype\<close> and
  the object holds, for every bucket of the tabs filed so far, the array of its tab ids.
\<close>

lemma bucketOf_update:
  "map_of d n = Some bw \<or> bw = [] \<Longrightarrow>
     bucketOf (AList.update n (AList.update w b bw) d) n' w'
       = (if n' = n \<and> w' = w then Some b
          else if n' = n then map_of bw w' else bucketOf d n' w')"
  by (auto simp: bucketOf_def update_conv')

lemma tabIdsOfBucket_snoc:
  "tabIdsOfBucket br (ts @ [t]) n w =
     tabIdsOfBucket br ts n w
     @ (if domainOfTab br t = Some n \<and> windowId t = w
        then (case tab_id t of None \<Rightarrow> [] | Some i \<Rightarrow> [i]) else [])"
  by (simp add: tabIdsOfBucket_def List.map_filter_def split: option.splits)

lemma addTabId_files:
  assumes "addTabId br (d, None) t = Inr (d', p')"
      and "domainOfTab br t \<noteq> Some ''__proto__''"
      and "\<forall>n w. bucketOf d n w =
             (if tabIdsOfBucket br ts n w = [] then None
              else Some (TabIds (tabIdsOfBucket br ts n w)))"
  shows "p' = None
       \<and> (\<forall>n w. bucketOf d' n w =
             (if tabIdsOfBucket br (ts @ [t]) n w = [] then None
              else Some (TabIds (tabIdsOfBucket br (ts @ [t]) n w))))"
proof -
  obtain i u hostname where
      i: "tab_id t = Some i" "i \<noteq> 0" and u: "url t = Some u" "u \<noteq> []"
      and h: "urlHostname br u = Some hostname"
    using assms(1) by (auto simp: addTabId_def split: option.splits if_splits)
  define domain where "domain = parseSharedDomain br hostname"
  have dom: "domainOfTab br t = Some domain"
    using u h by (simp add: domainOfTab_def domain_def)
  then have np: "domain \<noteq> ''__proto__''" using assms(2) by simp
  have inh: "inheritedProperty None domain = NotInherited
           \<or> inheritedProperty None domain = InheritedMethod"
    by (simp add: inheritedProperty_def)
  have snoc: "tabIdsOfBucket br (ts @ [t]) n w =
     tabIdsOfBucket br ts n w @ (if n = domain \<and> w = windowId t then [i] else [])" for n w
    unfolding tabIdsOfBucket_snoc using dom i by auto
  have inv: "bucketOf d n w =
             (if tabIdsOfBucket br ts n w = [] then None
              else Some (TabIds (tabIdsOfBucket br ts n w)))" for n w
    using assms(3) by blast
  show ?thesis
  proof (cases "map_of d domain")
    case None
    have r: "d' = AList.update domain (AList.update (windowId t) (TabIds [i]) []) d" "p' = None"
      using assms(1) i u h None np inh
      by (auto simp: addTabId_def Let_def domain_def[symmetric])
    have empty: "tabIdsOfBucket br ts domain w = []" for w
      using inv[of domain w] None by (simp add: bucketOf_def split: if_splits)
    have "bucketOf d' n w =
             (if tabIdsOfBucket br (ts @ [t]) n w = [] then None
              else Some (TabIds (tabIdsOfBucket br (ts @ [t]) n w)))" for n w
      unfolding r(1) snoc
      using bucketOf_update[where d = d and n = domain and bw = "[]" and w = "windowId t"
            and b = "TabIds [i]" and n' = n and w' = w]
        inv[of n w] empty[of w]
      by auto
    then show ?thesis using r(2) by blast
  next
    case (Some bw)
    have bw: "map_of bw w = bucketOf d domain w" for w
      using Some by (simp add: bucketOf_def)
    define ids where "ids = tabIdsOfBucket br ts domain (windowId t)"
    have r: "d' = AList.update domain
                    (AList.update (windowId t) (TabIds (ids @ [i])) bw) d \<and> p' = None"
    proof (cases "ids = []")
      case True
      then have "map_of bw (windowId t) = None"
        using bw[of "windowId t"] inv[of domain "windowId t"] by (simp add: ids_def)
      then show ?thesis
        using assms(1) i u h Some True
        by (auto simp: addTabId_def Let_def domain_def[symmetric])
    next
      case False
      then have "map_of bw (windowId t) = Some (TabIds ids)"
        using bw[of "windowId t"] inv[of domain "windowId t"] by (simp add: ids_def)
      then show ?thesis
        using assms(1) i u h Some
        by (auto simp: addTabId_def Let_def domain_def[symmetric])
    qed
    have "bucketOf d' n w =
             (if tabIdsOfBucket br (ts @ [t]) n w = [] then None
              else Some (TabIds (tabIdsOfBucket br (ts @ [t]) n w)))" for n w
      using r Some bucketOf_update[where d = d and n = domain and bw = bw and w = "windowId t"
            and b = "TabIds (ids @ [i])" and n' = n and w' = w]
        inv[of n w] bw[of w]
      unfolding snoc ids_def
      by auto
    then show ?thesis using r by blast
  qed
qed

lemma addTabIds_files:
  assumes "addTabIds br (d, None) tabs = Inr (d', p')"
      and "\<forall>t\<in>set tabs. domainOfTab br t \<noteq> Some ''__proto__''"
      and "\<forall>n w. bucketOf d n w =
             (if tabIdsOfBucket br ts n w = [] then None
              else Some (TabIds (tabIdsOfBucket br ts n w)))"
  shows "\<forall>n w. bucketOf d' n w =
             (if tabIdsOfBucket br (ts @ tabs) n w = [] then None
              else Some (TabIds (tabIdsOfBucket br (ts @ tabs) n w)))"
  using assms
proof (induction tabs arbitrary: d ts)
  case Nil
  then show ?case by simp
next
  case (Cons t tabs)
  obtain d1 p1 where d1: "addTabId br (d, None) t = Inr (d1, p1)"
      and rest: "addTabIds br (d1, p1) tabs = Inr (d', p')"
    using Cons.prems(1) by (auto split: sum.splits)
  have t: "domainOfTab br t \<noteq> Some ''__proto__''"
    and tabs: "\<forall>t\<in>set tabs. domainOfTab br t \<noteq> Some ''__proto__''"
    using Cons.prems(2) by simp_all
  have step: "p1 = None
       \<and> (\<forall>n w. bucketOf d1 n w =
             (if tabIdsOfBucket br (ts @ [t]) n w = [] then None
              else Some (TabIds (tabIdsOfBucket br (ts @ [t]) n w))))"
    by (rule addTabId_files[OF d1 t Cons.prems(3)])
  then have rest': "addTabIds br (d1, None) tabs = Inr (d', p')" using rest by simp
  from Cons.IH[OF rest' tabs, of "ts @ [t]"] step show ?case by simp
qed

lemma sortTabIdsByDomain_files:
  assumes "sortTabIdsByDomain br tabs = Inr d"
      and "\<forall>t\<in>set tabs. domainOfTab br t \<noteq> Some ''__proto__''"
  shows "bucketOf d n w =
           (if tabIdsOfBucket br tabs n w = [] then None
            else Some (TabIds (tabIdsOfBucket br tabs n w)))"
proof -
  obtain p where a: "addTabIds br ([], None) tabs = Inr (d, p)"
    using sortTabIdsByDomain_Inr[OF assms(1)] by blast
  have "\<forall>n w. bucketOf [] n w =
             (if tabIdsOfBucket br [] n w = [] then None
              else Some (TabIds (tabIdsOfBucket br [] n w)))"
    by (simp add: bucketOf_def tabIdsOfBucket_def List.map_filter_def)
  from addTabIds_files[OF a assms(2) this] show ?thesis by simp
qed

lemma bucketOf_member:
  assumes "distinct (map fst d)" and "\<forall>(n, byWindow)\<in>set d. distinct (map fst byWindow)"
      and "(n, byWindow) \<in> set d" and "(w, b) \<in> set byWindow"
  shows "bucketOf d n w = Some b"
proof -
  have "map_of d n = Some byWindow"
    using assms(1,3) by (rule map_of_is_SomeI)
  moreover have "distinct (map fst byWindow)" using assms(2,3) by auto
  then have "map_of byWindow w = Some b"
    using assms(4) by (rule map_of_is_SomeI)
  ultimately show ?thesis by (simp add: bucketOf_def)
qed

lemma bucketOf_SomeD:
  "bucketOf d n w = Some b \<Longrightarrow> \<exists>byWindow. (n, byWindow) \<in> set d \<and> (w, b) \<in> set byWindow"
  by (auto simp: bucketOf_def split: option.splits dest: map_of_SomeD)

lemma organize_commands:
  assumes "organize br lastError tabs = (cmds, err)"
  shows "(\<forall>c\<in>set cmds. isMove c)
       \<or> (\<exists>sortedTabs d moves.
            sortTabsAlphabetically br tabs = Inr sortedTabs
            \<and> sortTabIdsByDomain br (filterNonPinnedTabs sortedTabs) = Inr d
            \<and> cmds = moves @ renderBrowserTabGroups d
            \<and> (\<forall>c\<in>set moves. isMove c))"
proof (cases lastError)
  case (Some e)
  then show ?thesis using assms by (simp add: organize_def)
next
  case None
  show ?thesis
  proof (cases "sortTabsAlphabetically br tabs")
    case (Inl e)
    then show ?thesis using assms None by (simp add: organize_def)
  next
    case (Inr sortedTabs)
    obtain moves e where r: "reorderBrowserTabs sortedTabs = (moves, e)"
      by (cases "reorderBrowserTabs sortedTabs")
    have mv: "\<forall>c\<in>set moves. isMove c"
      using reorderBrowserTabs_isMove[of _ sortedTabs] r by simp
    show ?thesis
    proof (cases "e = None \<and> isTabGroupingSupported br")
      case False
      then have "cmds = moves"
        using assms None Inr r by (cases e) (auto simp: organize_def split: sum.splits)
      then show ?thesis using mv by simp
    next
      case True
      show ?thesis
      proof (cases "sortTabIdsByDomain br (filterNonPinnedTabs sortedTabs)")
        case (Inl e')
        then have "cmds = moves"
          using assms None Inr r True by (simp add: organize_def groupBrowserTabs_def)
        then show ?thesis using mv by simp
      next
        case d: (Inr d)
        then have "cmds = moves @ renderBrowserTabGroups d"
          using assms None Inr r True by (simp add: organize_def groupBrowserTabs_def)
        then show ?thesis using mv Inr d by blast
      qed
    qed
  qed
qed

lemma organize_finished:
  assumes "organize br lastError tabs = (cmds, None)" and "isTabGroupingSupported br"
  shows "\<exists>sortedTabs d moves.
            sortTabsAlphabetically br tabs = Inr sortedTabs
            \<and> sortTabIdsByDomain br (filterNonPinnedTabs sortedTabs) = Inr d
            \<and> cmds = moves @ renderBrowserTabGroups d
            \<and> (\<forall>c\<in>set moves. isMove c)"
proof -
  have le: "lastError = None"
    using assms(1) by (cases lastError) (simp_all add: organize_def)
  obtain sortedTabs where s: "sortTabsAlphabetically br tabs = Inr sortedTabs"
    using assms(1) le by (cases "sortTabsAlphabetically br tabs") (simp_all add: organize_def)
  obtain moves e where r: "reorderBrowserTabs sortedTabs = (moves, e)"
    by (cases "reorderBrowserTabs sortedTabs")
  have mv: "\<forall>c\<in>set moves. isMove c"
    using reorderBrowserTabs_isMove[of _ sortedTabs] r by simp
  have e: "e = None"
    using assms(1) le s r by (cases e) (simp_all add: organize_def)
  obtain d where d: "sortTabIdsByDomain br (filterNonPinnedTabs sortedTabs) = Inr d"
    using assms le s r e
    by (cases "sortTabIdsByDomain br (filterNonPinnedTabs sortedTabs)")
       (simp_all add: organize_def groupBrowserTabs_def)
  have "cmds = moves @ renderBrowserTabGroups d"
    using assms le s r e d by (simp add: organize_def groupBrowserTabs_def)
  then show ?thesis using s d mv by blast
qed

lemma organize_clusters:
  assumes "organize br lastError tabs = (cmds, None)"
      and "isTabGroupingSupported br"
      and "\<forall>t\<in>set tabs. \<not> pinned t \<longrightarrow> domainOfTab br t \<noteq> Some ''__proto__''"
  obtains sortedTabs where
      "sortTabsAlphabetically br tabs = Inr sortedTabs"
      "mset sortedTabs = mset tabs"
      "\<And>name w. length (tabIdsOfBucket br (filterNonPinnedTabs sortedTabs) name w) = 1 \<Longrightarrow>
          Ungroup (tabIdsOfBucket br (filterNonPinnedTabs sortedTabs) name w) \<in> set cmds"
      "\<And>name w. 2 \<le> length (tabIdsOfBucket br (filterNonPinnedTabs sortedTabs) name w) \<Longrightarrow>
          \<exists>idx. AddNewGroup idx name
                  (tabIdsOfBucket br (filterNonPinnedTabs sortedTabs) name w) w \<in> set cmds"
      "\<And>idx name ids w. AddNewGroup idx name ids w \<in> set cmds \<Longrightarrow>
          ids = tabIdsOfBucket br (filterNonPinnedTabs sortedTabs) name w \<and> 2 \<le> length ids"
      "\<And>ids. Ungroup ids \<in> set cmds \<Longrightarrow>
          length ids = 1
          \<and> (\<exists>name w. ids = tabIdsOfBucket br (filterNonPinnedTabs sortedTabs) name w)"
      "\<And>idx name tabId w. AddNewGroupOfTab idx name tabId w \<notin> set cmds"
proof -
  obtain sortedTabs d moves where
      s: "sortTabsAlphabetically br tabs = Inr sortedTabs"
      and d: "sortTabIdsByDomain br (filterNonPinnedTabs sortedTabs) = Inr d"
      and c: "cmds = moves @ renderBrowserTabGroups d"
      and mv: "\<forall>c\<in>set moves. isMove c"
    using organize_finished[OF assms(1,2)] by blast
  let ?ts = "filterNonPinnedTabs sortedTabs"
  have ms: "mset sortedTabs = mset tabs"
    using s arraySort_mset by (simp add: sortTabsAlphabetically_def)
  then have "set sortedTabs = set tabs" by (rule mset_eq_setD)
  then have np: "\<forall>t\<in>set ?ts. domainOfTab br t \<noteq> Some ''__proto__''"
    using assms(3) by (simp add: filterNonPinnedTabs_def)
  have files: "bucketOf d n w =
           (if tabIdsOfBucket br ?ts n w = [] then None
            else Some (TabIds (tabIdsOfBucket br ?ts n w)))" for n w
    by (rule sortTabIdsByDomain_files[OF d np])
  have dist: "distinct (map fst d)" "\<forall>(n, byWindow)\<in>set d. distinct (map fst byWindow)"
    using sortTabIdsByDomain_distinct[OF d] by simp_all
  have member: "b = TabIds (tabIdsOfBucket br ?ts n w) \<and> tabIdsOfBucket br ?ts n w \<noteq> []"
    if "(n, byWindow) \<in> set d" "(w, b) \<in> set byWindow" for n byWindow w b
    using bucketOf_member[OF dist that] files[of n w] by (auto split: if_splits)
  have render: "x \<in> set cmds \<Longrightarrow> \<not> isMove x \<Longrightarrow> x \<in> set (renderBrowserTabGroups d)" for x
    using c mv by auto
  have bucket: "(length (tabIdsOfBucket br ?ts n w) < 2 \<longrightarrow>
                   Ungroup (tabIdsOfBucket br ?ts n w) \<in> set cmds)
              \<and> (2 \<le> length (tabIdsOfBucket br ?ts n w) \<longrightarrow>
                   (\<exists>i. AddNewGroup i n (tabIdsOfBucket br ?ts n w) w \<in> set cmds))"
    if "tabIdsOfBucket br ?ts n w \<noteq> []" for n w
  proof -
    have "bucketOf d n w = Some (TabIds (tabIdsOfBucket br ?ts n w))"
      using files[of n w] that by simp
    then obtain byWindow where "(n, byWindow) \<in> set d"
        "(w, TabIds (tabIdsOfBucket br ?ts n w)) \<in> set byWindow"
      using bucketOf_SomeD by blast
    from renderBrowserTabGroups_bucket[OF this] show ?thesis
      unfolding c by auto
  qed
  show ?thesis
  proof (rule that[OF s ms])
    fix name w
    assume one: "length (tabIdsOfBucket br ?ts name w) = 1"
    then have "tabIdsOfBucket br ?ts name w \<noteq> []" by auto
    from bucket[OF this] one show "Ungroup (tabIdsOfBucket br ?ts name w) \<in> set cmds"
      by simp
  next
    fix name w
    assume two: "2 \<le> length (tabIdsOfBucket br ?ts name w)"
    then have "tabIdsOfBucket br ?ts name w \<noteq> []" by auto
    from bucket[OF this] two
    show "\<exists>idx. AddNewGroup idx name (tabIdsOfBucket br ?ts name w) w \<in> set cmds"
      by simp
  next
    fix idx name ids w
    assume "AddNewGroup idx name ids w \<in> set cmds"
    then have "AddNewGroup idx name ids w \<in> set (renderBrowserTabGroups d)"
      by (rule render) (simp add: isMove_def)
    then obtain bw where "(name, bw) \<in> set d" "(w, TabIds ids) \<in> set bw" "2 \<le> length ids"
      using renderBrowserTabGroups_AddNewGroup by blast
    then show "ids = tabIdsOfBucket br ?ts name w \<and> 2 \<le> length ids"
      using member[of name bw w "TabIds ids"] by simp
  next
    fix ids
    assume "Ungroup ids \<in> set cmds"
    then have "Ungroup ids \<in> set (renderBrowserTabGroups d)"
      by (rule render) (simp add: isMove_def)
    then obtain n bw w where m: "(n, bw) \<in> set d" "(w, TabIds ids) \<in> set bw" "length ids < 2"
      using renderBrowserTabGroups_Ungroup by blast
    have eq: "ids = tabIdsOfBucket br ?ts n w" and ne: "ids \<noteq> []"
      using member[OF m(1,2)] by simp_all
    have "length ids = 1" using ne m(3) by (cases ids) simp_all
    then show "length ids = 1 \<and> (\<exists>name w. ids = tabIdsOfBucket br ?ts name w)"
      using eq by blast
  next
    fix idx name tabId w
    show "AddNewGroupOfTab idx name tabId w \<notin> set cmds"
    proof
      assume "AddNewGroupOfTab idx name tabId w \<in> set cmds"
      then have "AddNewGroupOfTab idx name tabId w \<in> set (renderBrowserTabGroups d)"
        by (rule render) (simp add: isMove_def)
      then obtain bw where "(name, bw) \<in> set d" "(w, TabId tabId) \<in> set bw"
        using renderBrowserTabGroups_AddNewGroupOfTab by blast
      then show False using member[of name bw w "TabId tabId"] by simp
    qed
  qed
qed

lemmas run_simps =
  organize_def groupBrowserTabs_def filterNonPinnedTabs_def sortTabIdsByDomain_def
  addTabId_def inheritedProperty_def objectPrototypeMethods_def arrayProperties_def
  renderBrowserTabGroups_def isRealGroup_def objectEntries_def stringIndex_def
  numberIndex_def isDigit_def digitsToNat_def Let_def


text \<open>
  Once the prototype has been replaced, a label that is the numeral of a window id it holds
  reads the inherited array: the spread then files the tab ids of the "__proto__" bucket
  one by one under the label, and a group is asked for a lone tab.
\<close>

lemma groupBrowserTabs_inherited_array:
  "groupBrowserTabs sampleBrowser
     [sampleTab 5 ''https://__proto__/x'' 7, sampleTab 6 ''https://7/x'' 9]
   = Inr [AddNewGroupOfTab 0 ''7'' 5 0, Ungroup [6]]"
  by (simp add: sample_simps run_simps char_of_def bit_Suc_0_iff)

text \<open>
  For tabs none of which, pinned tabs apart, has the label "__proto__", the clustering is
  what claim C3 describes, with the buckets read off the tabs: after a pass that ends
  without an error (grouping being supported), the buckets (domain label, window id) of the
  sorted, non-pinned tabs are treated one by one. A bucket of exactly one tab gets a
  \<open>tabs.ungroup\<close> of that tab, a bucket of two or more tabs a group of exactly its tabs; and
  every group asked for and every \<open>tabs.ungroup\<close> issued is that of such a bucket.
\<close>

theorem organize_clusters_of_tabs:
  assumes "organize br lastError tabs = (cmds, None)"
      and "isTabGroupingSupported br"
      and "\<forall>t\<in>set tabs. \<not> pinned t \<longrightarrow> domainOfTab br t \<noteq> Some ''__proto__''"
  shows "\<exists>sortedTabs.
           sortTabsAlphabetically br tabs = Inr sortedTabs
           \<and> mset sortedTabs = mset tabs
           \<and> (\<forall>name w.
                (length (tabIdsOfBucket br (filterNonPinnedTabs sortedTabs) name w) = 1 \<longrightarrow>
                   Ungroup (tabIdsOfBucket br (filterNonPinnedTabs sortedTabs) name w) \<in> set cmds
                   \<and> (\<forall>idx ids. AddNewGroup idx name ids w \<notin> set cmds))
              \<and> (2 \<le> length (tabIdsOfBucket br (filterNonPinnedTabs sortedTabs) name w) \<longrightarrow>
                   (\<exists>idx. AddNewGroup idx name
                            (tabIdsOfBucket br (filterNonPinnedTabs sortedTabs) name w) w
                          \<in> set cmds)))
           \<and> (\<forall>idx name ids w. AddNewGroup idx name ids w \<in> set cmds \<longrightarrow>
                ids = tabIdsOfBucket br (filterNonPinnedTabs sortedTabs) name w
                \<and> 2 \<le> length ids
                \<and> groupTabIds (fst (addNewGroup br prevGroup idx name ids w)) = ids)
           \<and> (\<forall>ids. Ungroup ids \<in> set cmds \<longrightarrow>
                length ids = 1
                \<and> (\<exists>name w. ids = tabIdsOfBucket br (filterNonPinnedTabs sortedTabs) name w))
           \<and> (\<forall>idx name tabId w. AddNewGroupOfTab idx name tabId w \<notin> set cmds)"
proof (rule organize_clusters[OF assms])
  fix sortedTabs
  assume s: "sortTabsAlphabetically br tabs = Inr sortedTabs"
    and ms: "mset sortedTabs = mset tabs"
    and one: "\<And>name w. length (tabIdsOfBucket br (filterNonPinnedTabs sortedTabs) name w) = 1 \<Longrightarrow>
          Ungroup (tabIdsOfBucket br (filterNonPinnedTabs sortedTabs) name w) \<in> set cmds"
    and two: "\<And>name w. 2 \<le> length (tabIdsOfBucket br (filterNonPinnedTabs sortedTabs) name w) \<Longrightarrow>
          \<exists>idx. AddNewGroup idx name
                  (tabIdsOfBucket br (filterNonPinnedTabs sortedTabs) name w) w \<in> set cmds"
    and grp: "\<And>idx name ids w. AddNewGroup idx name ids w \<in> set cmds \<Longrightarrow>
          ids = tabIdsOfBucket br (filterNonPinnedTabs sortedTabs) name w \<and> 2 \<le> length ids"
    and ung: "\<And>ids. Ungroup ids \<in> set cmds \<Longrightarrow>
          length ids = 1
          \<and> (\<exists>name w. ids = tabIdsOfBucket br (filterNonPinnedTabs sortedTabs) name w)"
    and lone: "\<And>idx name tabId w. AddNewGroupOfTab idx name tabId w \<notin> set cmds"
  let ?b = "tabIdsOfBucket br (filterNonPinnedTabs sortedTabs)"
  have none: "AddNewGroup idx name ids w \<notin> set cmds" if "length (?b name w) = 1"
    for idx name ids w
    using grp[of idx name ids w] that by auto
  have opts: "groupTabIds (fst (addNewGroup br prevGroup idx name ids w)) = ids"
    for idx name ids w
    by (simp add: addNewGroup_def)
  show ?thesis
  proof (intro exI[of _ sortedTabs] conjI)
    show "sortTabsAlphabetically br tabs = Inr sortedTabs" by (rule s)
    show "mset sortedTabs = mset tabs" by (rule ms)
    show "\<forall>name w.
            (length (?b name w) = 1 \<longrightarrow>
               Ungroup (?b name w) \<in> set cmds
               \<and> (\<forall>idx ids. AddNewGroup idx name ids w \<notin> set cmds))
          \<and> (2 \<le> length (?b name w) \<longrightarrow>
               (\<exists>idx. AddNewGroup idx name (?b name w) w \<in> set cmds))"
    proof (intro allI conjI impI)
      fix name w
      assume l: "length (?b name w) = 1"
      show "Ungroup (?b name w) \<in> set cmds" by (rule one[OF l])
      fix idx ids
      show "AddNewGroup idx name ids w \<notin> set cmds" by (rule none[OF l])
    next
      fix name w
      assume "2 \<le> length (?b name w)"
      then show "\<exists>idx. AddNewGroup idx name (?b name w) w \<in> set cmds" by (rule two)
    qed
    show "\<forall>idx name ids w. AddNewGroup idx name ids w \<in> set cmds \<longrightarrow>
            ids = ?b name w \<and> 2 \<le> length ids
            \<and> groupTabIds (fst (addNewGroup br prevGroup idx name ids w)) = ids"
    proof (intro allI impI)
      fix idx name ids w
      assume "AddNewGroup idx name ids w \<in> set cmds"
      from grp[OF this] opts[of idx name ids w]
      show "ids = ?b name w \<and> 2 \<le> length ids
            \<and> groupTabIds (fst (addNewGroup br prevGroup idx name ids w)) = ids"
        by blast
    qed
    show "\<forall>ids. Ungroup ids \<in> set cmds \<longrightarrow>
            length ids = 1 \<and> (\<exists>name w. ids = ?b name w)"
    proof (intro allI impI)
      fix ids
      assume "Ungroup ids \<in> set cmds"
      then show "length ids = 1 \<and> (\<exists>name w. ids = ?b name w)" by (rule ung)
    qed
    show "\<forall>idx name tabId w. AddNewGroupOfTab idx name tabId w \<notin> set cmds"
      using lone by simp
  qed
qed

text \<open>The example of the specification: two tabs of a.example and one of b.example in one window.\<close>

theorem organize_clusters_of_tabs_witness:
  "organize sampleBrowser None
     [sampleTab 1 ''https://a.example/x'' 1, sampleTab 2 ''https://b.example/y'' 1,
      sampleTab 3 ''https://a.example/z'' 1]
   = ([Move 1, Move 3, Move 2, AddNewGroup 0 ''a.example'' [1, 3] 1, Ungroup [2]], None)
   \<and> (\<exists>sortedTabs.
         sortTabsAlphabetically sampleBrowser
           [sampleTab 1 ''https://a.example/x'' 1, sampleTab 2 ''https://b.example/y'' 1,
            sampleTab 3 ''https://a.example/z'' 1] = Inr sortedTabs
         \<and> tabIdsOfBucket sampleBrowser (filterNonPinnedTabs sortedTabs) ''a.example'' 1 = [1, 3]
         \<and> tabIdsOfBucket sampleBrowser (filterNonPinnedTabs sortedTabs) ''b.example'' 1 = [2])"
proof -
  let ?tabs = "[sampleTab 1 ''https://a.example/x'' 1, sampleTab 2 ''https://b.example/y'' 1,
      sampleTab 3 ''https://a.example/z'' 1]"
  let ?cmds = "[Move 1, Move 3, Move 2, AddNewGroup 0 ''a.example'' [1, 3] 1, Ungroup [2]]"
  have run: "organize sampleBrowser None ?tabs = (?cmds, None)"
    by (simp add: sample_simps run_simps)
  have sup: "isTabGroupingSupported sampleBrowser" by (simp add: sampleBrowser_def)
  have np: "\<forall>t\<in>set ?tabs. \<not> pinned t \<longrightarrow> domainOfTab sampleBrowser t \<noteq> Some ''__proto__''"
    by (simp add: sample_simps domainOfTab_def)
  from organize_clusters_of_tabs[OF run sup np, of None]
  obtain sortedTabs where
      s: "sortTabsAlphabetically sampleBrowser ?tabs = Inr sortedTabs"
      and g: "\<forall>idx name ids w. AddNewGroup idx name ids w \<in> set ?cmds \<longrightarrow>
                ids = tabIdsOfBucket sampleBrowser (filterNonPinnedTabs sortedTabs) name w
                \<and> 2 \<le> length ids
                \<and> groupTabIds (fst (addNewGroup sampleBrowser None idx name ids w)) = ids"
      and u: "\<forall>ids. Ungroup ids \<in> set ?cmds \<longrightarrow>
                length ids = 1
                \<and> (\<exists>name w. ids = tabIdsOfBucket sampleBrowser (filterNonPinnedTabs sortedTabs) name w)"
    by blast
  have a: "tabIdsOfBucket sampleBrowser (filterNonPinnedTabs sortedTabs) ''a.example'' 1 = [1, 3]"
    using g by simp
  have st: "sortedTabs = [sampleTab 1 ''https://a.example/x'' 1,
      sampleTab 3 ''https://a.example/z'' 1, sampleTab 2 ''https://b.example/y'' 1]"
    using s by (simp add: sample_simps)
  have b: "tabIdsOfBucket sampleBrowser (filterNonPinnedTabs sortedTabs) ''b.example'' 1 = [2]"
    unfolding st
    by (simp add: sample_simps tabIdsOfBucket_def domainOfTab_def filterNonPinnedTabs_def
        List.map_filter_def)
  show ?thesis using run s a b by blast
qed

section \<open>Tabs without a URL\<close>

lemma short_list: "b \<in> set xs \<Longrightarrow> \<not> 2 \<le> length xs \<Longrightarrow> xs = [b]"
  by (cases xs) (auto simp: not_less_eq_eq)

lemma insertSorted_fails_first:
  "ys \<noteq> [] \<Longrightarrow> \<forall>y. \<exists>e. cmp x y = Inl e \<Longrightarrow> \<exists>e. insertSorted cmp x ys = Inl e"
proof (cases ys)
  case Nil
  assume "ys \<noteq> []" then show ?thesis using Nil by simp
next
  case (Cons y ys')
  assume "\<forall>y. \<exists>e. cmp x y = Inl e"
  then obtain e where "cmp x y = Inl e" by blast
  then show ?thesis using Cons by simp
qed

lemma arraySort_fails:
  assumes "b \<in> set xs" and "2 \<le> length xs"
      and "\<forall>y. (\<exists>e. cmp b y = Inl e) \<and> (\<exists>e. cmp y b = Inl e)"
  shows "\<exists>e. arraySort cmp xs = Inl e"
  using assms(1,2)
proof (induction xs)
  case Nil
  then show ?case by simp
next
  case (Cons x xs)
  show ?case
  proof (cases "arraySort cmp xs")
    case (Inl e)
    then show ?thesis by simp
  next
    case (Inr ys)
    have ne: "xs \<noteq> []" using Cons.prems(2) by auto
    have "mset ys = mset xs" by (rule arraySort_mset[OF Inr])
    then have ys_ne: "ys \<noteq> []" using ne by auto
    show ?thesis
    proof (cases "x = b")
      case True
      have "\<forall>y. \<exists>e. cmp x y = Inl e" using assms(3) True by blast
      then have "\<exists>e. insertSorted cmp x ys = Inl e"
        by (rule insertSorted_fails_first[OF ys_ne])
      then show ?thesis using Inr by simp
    next
      case False
      then have bxs: "b \<in> set xs" using Cons.prems(1) by simp
      have "\<not> 2 \<le> length xs"
        using Cons.IH[OF bxs] Inr by auto
      then have "xs = [b]"
        using bxs by (simp add: short_list)
      then have "ys = [b]" using Inr by simp
      moreover obtain e where "cmp x b = Inl e" using assms(3) by blast
      ultimately show ?thesis using Inr by simp
    qed
  qed
qed

lemma tabCompare_hasNoUrl:
  "hasNoUrl b \<Longrightarrow> tabCompare br b y = Inl NoUrlForSortedTab \<and> tabCompare br y b = Inl NoUrlForSortedTab"
  by (auto simp: hasNoUrl_def tabCompare_def split: option.splits)

lemma sortTabsAlphabetically_fails:
  assumes "t \<in> set tabs" and "hasNoUrl t" and "2 \<le> length tabs"
  shows "\<exists>e. sortTabsAlphabetically br tabs = Inl e"
  unfolding sortTabsAlphabetically_def
  by (rule arraySort_fails[OF assms(1,3)]) (use tabCompare_hasNoUrl[OF assms(2)] in auto)

lemma addTabId_hasNoUrl: "hasNoUrl t \<Longrightarrow> \<exists>e. addTabId br object t = Inl e"
  by (auto simp: hasNoUrl_def addTabId_def split: option.splits)

lemma organize_sort_fails:
  "sortTabsAlphabetically br tabs = Inl e \<Longrightarrow> \<exists>e'. organize br lastError tabs = ([], Some e')"
  by (cases lastError) (simp_all add: organize_def)

lemma url_less_no_bucket:
  assumes "t \<in> set tabs" and "hasNoUrl t"
      and "sortTabsAlphabetically br tabs = Inr sortedTabs"
      and "sortTabIdsByDomain br (filterNonPinnedTabs sortedTabs) = Inr d"
  shows "d = []"
proof -
  have "\<not> 2 \<le> length tabs"
    using sortTabsAlphabetically_fails[OF assms(1,2), of br] assms(3) by auto
  then have tabs: "tabs = [t]" using assms(1) by (simp add: short_list)
  then have s: "sortedTabs = [t]"
    using assms(3) by (simp add: sortTabsAlphabetically_def)
  show ?thesis
  proof (cases "pinned t")
    case True
    then show ?thesis
      using assms(4) s by (simp add: filterNonPinnedTabs_def sortTabIdsByDomain_def)
  next
    case False
    obtain e where "addTabId br ([], None) t = Inl e"
      using addTabId_hasNoUrl[OF assms(2)] by blast
    then show ?thesis
      using assms(4) s False by (simp add: filterNonPinnedTabs_def sortTabIdsByDomain_def)
  qed
qed

text \<open>
  Claim C9, as the code has it. A tab without a URL is in no bucket and is neither grouped
  nor ungrouped (the pass issues nothing but moves, and the object of buckets, if it is
  built at all, is empty), but not because the tab is skipped or labelled "system": the pass
  fails. With two or more tabs the comparator of the sort throws before any command is
  issued; a lone tab is moved, and then \<open>sortTabIdsByDomain\<close> throws "No tab url" unless the
  tab is pinned.
\<close>

theorem organize_url_less_tab:
  assumes "t \<in> set tabs" and "hasNoUrl t"
  shows "(\<forall>c\<in>set (fst (organize br lastError tabs)). isMove c)
       \<and> (\<forall>sortedTabs d. sortTabsAlphabetically br tabs = Inr sortedTabs
             \<and> sortTabIdsByDomain br (filterNonPinnedTabs sortedTabs) = Inr d \<longrightarrow> d = [])
       \<and> (2 \<le> length tabs \<longrightarrow> (\<exists>e. organize br lastError tabs = ([], Some e)))
       \<and> (tabs = [t] \<and> lastError = None \<and> isTabGroupingSupported br \<and> \<not> pinned t
            \<and> tab_id t = Some i \<and> i \<noteq> 0 \<longrightarrow>
              organize br lastError tabs = ([Move i], Some NoTabUrl))"
proof (intro conjI allI impI)
  obtain cmds err where o: "organize br lastError tabs = (cmds, err)"
    by (cases "organize br lastError tabs")
  from organize_commands[OF o] have "\<forall>c\<in>set cmds. isMove c"
  proof (elim disjE exE conjE)
    fix sortedTabs d moves
    assume "sortTabsAlphabetically br tabs = Inr sortedTabs"
      and "sortTabIdsByDomain br (filterNonPinnedTabs sortedTabs) = Inr d"
      and c: "cmds = moves @ renderBrowserTabGroups d" and mv: "\<forall>c\<in>set moves. isMove c"
    then have "d = []" using url_less_no_bucket[OF assms] by blast
    then show ?thesis using c mv by (simp add: renderBrowserTabGroups_def objectEntries_def)
  qed simp
  then show "\<forall>c\<in>set (fst (organize br lastError tabs)). isMove c" using o by simp
next
  fix sortedTabs d
  assume "sortTabsAlphabetically br tabs = Inr sortedTabs
             \<and> sortTabIdsByDomain br (filterNonPinnedTabs sortedTabs) = Inr d"
  then show "d = []" using url_less_no_bucket[OF assms] by blast
next
  assume "2 \<le> length tabs"
  then obtain e where "sortTabsAlphabetically br tabs = Inl e"
    using sortTabsAlphabetically_fails[OF assms] by blast
  then show "\<exists>e. organize br lastError tabs = ([], Some e)"
    by (rule organize_sort_fails)
next
  assume a: "tabs = [t] \<and> lastError = None \<and> isTabGroupingSupported br \<and> \<not> pinned t
            \<and> tab_id t = Some i \<and> i \<noteq> 0"
  have "addTabId br ([], None) t = Inl NoTabUrl"
    using assms(2) a by (auto simp: hasNoUrl_def addTabId_def)
  then show "organize br lastError tabs = ([Move i], Some NoTabUrl)"
    using a by (simp add: organize_def sortTabsAlphabetically_def groupBrowserTabs_def
        filterNonPinnedTabs_def sortTabIdsByDomain_def)
qed

text \<open>The hypotheses hold for a tab set of two tabs and for a lone tab.\<close>

theorem organize_url_less_tab_witness:
  "organize sampleBrowser None
     [sampleTab 1 ''https://a.example/x'' 1, urlLessTab 2 1] = ([], Some NoUrlForSortedTab)
   \<and> (\<exists>e. organize sampleBrowser None
          [sampleTab 1 ''https://a.example/x'' 1, urlLessTab 2 1] = ([], Some e))
   \<and> organize sampleBrowser None [urlLessTab 2 1] = ([Move 2], Some NoTabUrl)"
proof -
  have h: "hasNoUrl (urlLessTab 2 1)" by (simp add: hasNoUrl_def urlLessTab_def)
  have "\<exists>e. organize sampleBrowser None
          [sampleTab 1 ''https://a.example/x'' 1, urlLessTab 2 1] = ([], Some e)"
    using organize_url_less_tab[of "urlLessTab 2 1"
        "[sampleTab 1 ''https://a.example/x'' 1, urlLessTab 2 1]", OF _ h, of sampleBrowser None]
    by simp
  moreover have "organize sampleBrowser None [urlLessTab 2 1] = ([Move 2], Some NoTabUrl)"
    using organize_url_less_tab[of "urlLessTab 2 1" "[urlLessTab 2 1]", OF _ h,
        of sampleBrowser None 2]
    by (simp add: sampleBrowser_def urlLessTab_def)
  moreover have "organize sampleBrowser None
     [sampleTab 1 ''https://a.example/x'' 1, urlLessTab 2 1] = ([], Some NoUrlForSortedTab)"
    by (simp add: sample_simps run_simps)
  ultimately show ?thesis by blast
qed

text \<open>
  Claim C9 as it is worded fails: a tab without a URL makes the pass fail, and the two tabs
  of a.example beside it are not grouped.
\<close>

theorem organize_fails_on_url_less_tab:
  "organize sampleBrowser None
     [sampleTab 1 ''https://a.example/x'' 1, sampleTab 2 ''https://a.example/z'' 1,
      urlLessTab 3 1]
   = ([], Some NoUrlForSortedTab)
   \<and> organize sampleBrowser None [urlLessTab 3 1] = ([Move 3], Some NoTabUrl)"
  by (simp add: sample_simps run_simps)

lemma tabCompare_TabOrganizer_hasNoUrl:
  "hasNoUrl b \<Longrightarrow>
     tabCompare_TabOrganizer br b y = Inl NoUrlForSortedTab \<and> tabCompare_TabOrganizer br y b = Inl NoUrlForSortedTab"
  by (auto simp: hasNoUrl_def tabCompare_TabOrganizer_def split: option.splits)

lemma sortTabsAlphabetically_TabOrganizer_fails:
  assumes "t \<in> set tabs" and "hasNoUrl t" and "2 \<le> length tabs"
  shows "\<exists>e. sortTabsAlphabetically_TabOrganizer br tabs = Inl e"
  unfolding sortTabsAlphabetically_TabOrganizer_def
  by (rule arraySort_fails[OF assms(1,3)]) (use tabCompare_TabOrganizer_hasNoUrl[OF assms(2)] in auto)

text \<open>
  In \<open>TabOrganizer\<close> the tab without a URL is skipped by \<open>sortTabIdsByDomain\<close>, and a lone
  such tab is moved and left alone; but with two or more tabs the sort throws there too.
\<close>

theorem organizeAllTabs_url_less_tab:
  assumes "hasNoUrl t"
  shows "addTabId_TabOrganizer br tabIdsByDomain t = Inr tabIdsByDomain
       \<and> (t \<in> set tabs \<and> 2 \<le> length tabs \<longrightarrow>
            (\<exists>e. organizeAllTabs br lastError tabs = ([], Some e)))
       \<and> (tab_id t = Some i \<and> i \<noteq> 0 \<longrightarrow>
            organizeAllTabs br None [t] = ([MoveTO i], None))"
proof (intro conjI impI)
  show "addTabId_TabOrganizer br tabIdsByDomain t = Inr tabIdsByDomain"
    using assms by (auto simp: hasNoUrl_def addTabId_TabOrganizer_def)
next
  assume "t \<in> set tabs \<and> 2 \<le> length tabs"
  then obtain e where "sortTabsAlphabetically_TabOrganizer br tabs = Inl e"
    using sortTabsAlphabetically_TabOrganizer_fails[OF _ assms] by blast
  then show "\<exists>e. organizeAllTabs br lastError tabs = ([], Some e)"
    by (cases lastError) (simp_all add: organizeAllTabs_def)
next
  assume "tab_id t = Some i \<and> i \<noteq> 0"
  moreover have "addTabId_TabOrganizer br [] t = Inr []"
    using assms by (auto simp: hasNoUrl_def addTabId_TabOrganizer_def)
  ultimately show "organizeAllTabs br None [t] = ([MoveTO i], None)"
    by (simp add: organizeAllTabs_def sortTabsAlphabetically_TabOrganizer_def sortTabIdsByDomain_TabOrganizer_def
        renderBrowserTabGroups_TabOrganizer_def objectEntries_def)
qed

theorem organizeAllTabs_url_less_tab_witness:
  "addTabId_TabOrganizer sampleBrowser [(''a.example'', [Some 1])] (urlLessTab 2 1)
     = Inr [(''a.example'', [Some 1])]
   \<and> (\<exists>e. organizeAllTabs sampleBrowser None
          [sampleTab 1 ''https://a.example/x'' 1, urlLessTab 2 1] = ([], Some e))
   \<and> organizeAllTabs sampleBrowser None [urlLessTab 2 1] = ([MoveTO 2], None)"
proof -
  have h: "hasNoUrl (urlLessTab 2 1)" by (simp add: hasNoUrl_def urlLessTab_def)
  show ?thesis
    using organizeAllTabs_url_less_tab[OF h, of sampleBrowser "[(''a.example'', [Some 1])]"
        "[sampleTab 1 ''https://a.example/x'' 1, urlLessTab 2 1]" None 2]
    by (simp add: urlLessTab_def)
qed

text \<open>
  \<open>TabOrganizer.sortTabIdsByDomain\<close> files a tab whose URL has an empty domain label under
  "system".
\<close>

theorem sortTabIdsByDomain_TabOrganizer_system:
  assumes "url t = Some u" and "u \<noteq> []" and "urlHostname br u = Some hostname"
      and "parseSharedDomain br hostname = []"
  shows "sortTabIdsByDomain_TabOrganizer br [t] = Inr [(''system'', [tab_id t])]"
  using assms
  by (simp add: sortTabIdsByDomain_TabOrganizer_def addTabId_TabOrganizer_def
      objectPrototypeMethods_def)

theorem sortTabIdsByDomain_TabOrganizer_system_witness:
  "sortTabIdsByDomain_TabOrganizer sampleBrowser [sampleTab 1 ''https:///settings'' 1]
     = Inr [(''system'', [Some 1])]"
  using sortTabIdsByDomain_TabOrganizer_system[of "sampleTab 1 ''https:///settings'' 1" "''https:///settings''"
      sampleBrowser "[]"]
  by (simp add: sampleTab_def sampleBrowser_def sampleHostname_def)

section \<open>Colour indices\<close>

text \<open>
  Claim C2 does not hold of \<open>renderBrowserTabGroups\<close>. The index of a group is the position
  of its domain among all domains minus the number of orphan buckets met so far, so an orphan
  bucket that shares its domain with a real group (in another window) shifts the index of
  every later domain. Two passes with the same real groups, a.example and b.example in
  window 1, give b.example the index 1 (blue) without, and the index 0 (grey, the colour
  of a.example) with, a single tab of a.example in window 2; and two orphan buckets of
  one domain drive the index to -1, for which the palette has no colour.
\<close>

theorem color_index_shifted_by_orphan:
  "organize sampleBrowser None
     [sampleTab 1 ''https://a.example/x'' 1, sampleTab 2 ''https://a.example/y'' 1,
      sampleTab 3 ''https://b.example/x'' 1, sampleTab 4 ''https://b.example/y'' 1]
   = ([Move 1, Move 2, Move 3, Move 4,
       AddNewGroup 0 ''a.example'' [1, 2] 1, AddNewGroup 1 ''b.example'' [3, 4] 1], None)
   \<and> organize sampleBrowser None
     [sampleTab 1 ''https://a.example/x'' 1, sampleTab 2 ''https://a.example/y'' 1,
      sampleTab 3 ''https://b.example/x'' 1, sampleTab 4 ''https://b.example/y'' 1,
      sampleTab 5 ''https://a.example/z'' 2]
   = ([Move 1, Move 2, Move 5, Move 3, Move 4,
       AddNewGroup 0 ''a.example'' [1, 2] 1, Ungroup [5],
       AddNewGroup 0 ''b.example'' [3, 4] 1], None)
   \<and> color (snd (addNewGroup sampleBrowser None 1 ''b.example'' [3, 4] 1)) = Some ''blue''
   \<and> color (snd (addNewGroup sampleBrowser None 0 ''b.example'' [3, 4] 1)) = Some ''grey''
   \<and> organize sampleBrowser None
     [sampleTab 1 ''https://a.example/x'' 1, sampleTab 2 ''https://a.example/y'' 2,
      sampleTab 3 ''https://b.example/x'' 1, sampleTab 4 ''https://b.example/y'' 1]
   = ([Move 1, Move 2, Move 3, Move 4, Ungroup [1], Ungroup [2],
       AddNewGroup (- 1) ''b.example'' [3, 4] 1], None)
   \<and> color (snd (addNewGroup sampleBrowser None (- 1) ''b.example'' [3, 4] 1)) = None"
  by (simp add: sample_simps run_simps addNewGroup_def getColorForGroup_def)

lemma groupsOf_simps [simp]:
  "groupsOf [] = []"
  "groupsOf (Ungroup ids # cs) = groupsOf cs"
  "groupsOf (Move j # cs) = groupsOf cs"
  "groupsOf (AddNewGroup i n ids w # cs) = ((n, w), i) # groupsOf cs"
  "groupsOf (AddNewGroupOfTab i n tabId w # cs) = ((n, w), i) # groupsOf cs"
  "groupsOf (xs @ ys) = groupsOf xs @ groupsOf ys"
  by (simp_all add: groupsOf_def List.map_filter_def)

lemma objectEntries_single: "objectEntries f [e] = [e]"
  by (cases e) (simp add: objectEntries_def)

lemma renderNames_single_bucket:
  assumes "\<forall>(n, byWindow)\<in>set entries. length byWindow = 1"
  shows "groupsOf (renderNames entries idx off) = numberFrom (idx - off) (realBuckets entries)"
  using assms
proof (induction entries arbitrary: idx off)
  case Nil
  then show ?case by (simp add: realBuckets_def)
next
  case (Cons e entries)
  obtain n byWindow where e: "e = (n, byWindow)" by (cases e)
  have "length byWindow = 1" using Cons.prems e by simp
  then obtain w b where bw: "byWindow = [(w, b)]"
    by (cases byWindow) (auto simp: length_Suc_conv)
  have rest: "\<forall>(n, byWindow)\<in>set entries. length byWindow = 1"
    using Cons.prems by simp
  have up: "groupsOf (renderNames entries (idx + 1) (off + 1))
          = numberFrom (idx - off) (realBuckets entries)"
    using Cons.IH[OF rest, of "idx + 1" "off + 1"] by simp
  have same: "groupsOf (renderNames entries (idx + 1) off)
          = numberFrom (idx - off + 1) (realBuckets entries)"
    using Cons.IH[OF rest, of "idx + 1" off] by (simp add: add.commute add_diff_eq)
  show ?case
  proof (cases b)
    case (TabIds ids)
    show ?thesis
    proof (cases "length ids < 2")
      case True
      then show ?thesis
        using up unfolding e bw TabIds
        by (simp add: objectEntries_single realBuckets_def isRealGroup_def isOrphanGroup_def)
    next
      case False
      then show ?thesis
        using same unfolding e bw TabIds
        by (simp add: objectEntries_single realBuckets_def isRealGroup_def isOrphanGroup_def)
    qed
  next
    case (TabId tabId)
    show ?thesis
      using same unfolding e bw TabId
      by (simp add: objectEntries_single realBuckets_def isRealGroup_def isOrphanGroup_def)
  qed
qed

text \<open>
  When every domain has a single bucket (all clustered tabs in one window), the offset does
  what its comment says: the real buckets get the indices 0, 1, 2, ... in the order they
  are met, whatever orphans lie between them. Two such passes that meet the same real
  buckets in the same order therefore ask for the same colours.
\<close>

theorem single_window_color_indices:
  assumes "\<forall>(n, byWindow)\<in>set tabIdsByGroup. length byWindow = 1"
  shows "groupsOf (renderBrowserTabGroups tabIdsByGroup)
         = numberFrom 0 (realBuckets (objectEntries stringIndex tabIdsByGroup))"
proof -
  have "\<forall>(n, byWindow)\<in>set (objectEntries stringIndex tabIdsByGroup). length byWindow = 1"
    using assms by simp
  then show ?thesis
    unfolding renderBrowserTabGroups_def
    using renderNames_single_bucket[of "objectEntries stringIndex tabIdsByGroup" 0 0] by simp
qed

text \<open>Three domains in one window, the second an orphan.\<close>

theorem single_window_color_indices_witness:
  "groupsOf (renderBrowserTabGroups
      [(''a.example'', [(1, TabIds [1, 2])]), (''b.example'', [(1, TabIds [3])]),
       (''c.example'', [(1, TabIds [4, 5])])])
   = [((''a.example'', 1), 0), ((''c.example'', 1), 1)]"
  using single_window_color_indices[of
      "[(''a.example'', [(1, TabIds [1, 2])]), (''b.example'', [(1, TabIds [3])]),
       (''c.example'', [(1, TabIds [4, 5])])]"]
  by (simp add: realBuckets_def isOrphanGroup_def objectEntries_def stringIndex_def
      numberIndex_def isDigit_def)

lemma groupsOf_TabOrganizer_simps [simp]:
  "groupsOf_TabOrganizer [] = []"
  "groupsOf_TabOrganizer (UngroupTO ids # cs) = groupsOf_TabOrganizer cs"
  "groupsOf_TabOrganizer (MoveTO j # cs) = groupsOf_TabOrganizer cs"
  "groupsOf_TabOrganizer (AddNewGroupTO i n ids # cs) = (n, i) # groupsOf_TabOrganizer cs"
  "groupsOf_TabOrganizer (xs @ ys) = groupsOf_TabOrganizer xs @ groupsOf_TabOrganizer ys"
  by (simp_all add: groupsOf_TabOrganizer_def List.map_filter_def)

lemma renderGroupsFrom_TabOrganizer_append:
  "renderGroupsFrom_TabOrganizer i (xs @ ys) = renderGroupsFrom_TabOrganizer i xs @ renderGroupsFrom_TabOrganizer (i + int (length xs)) ys"
  by (induction xs arbitrary: i) (auto simp: add.assoc)

lemma renderGroupsFrom_TabOrganizer_real:
  "\<forall>(g, ids)\<in>set xs. length ids > 1 \<Longrightarrow>
     groupsOf_TabOrganizer (renderGroupsFrom_TabOrganizer i xs) = numberFrom i (map fst xs)"
  by (induction xs arbitrary: i) auto

lemma renderGroupsFrom_TabOrganizer_orphan:
  "\<forall>(g, ids)\<in>set xs. \<not> length ids > 1 \<Longrightarrow> groupsOf_TabOrganizer (renderGroupsFrom_TabOrganizer i xs) = []"
  by (induction xs arbitrary: i) auto

text \<open>
  \<open>TabOrganizer.renderBrowserTabGroups\<close> numbers \<open>[...realGroups, ...orphanGroups]\<close> itself:
  there the real groups always get 0, 1, 2, ... in the order of \<open>Object.keys\<close>.
\<close>

theorem renderBrowserTabGroups_TabOrganizer_real_first:
  "groupsOf_TabOrganizer (renderBrowserTabGroups_TabOrganizer tabIdsByGroup)
   = numberFrom 0 (map fst (filter (\<lambda>(groupName, tabIds). length tabIds > 1)
                              (objectEntries stringIndex tabIdsByGroup)))"
proof -
  let ?groups = "objectEntries stringIndex tabIdsByGroup"
  let ?real = "filter (\<lambda>(groupName, tabIds). length tabIds > 1) ?groups"
  let ?orphan = "filter (\<lambda>(groupName, tabIds). \<not> length tabIds > 1) ?groups"
  have r: "groupsOf_TabOrganizer (renderGroupsFrom_TabOrganizer 0 ?real) = numberFrom 0 (map fst ?real)"
    by (rule renderGroupsFrom_TabOrganizer_real) auto
  have o: "groupsOf_TabOrganizer (renderGroupsFrom_TabOrganizer (0 + int (length ?real)) ?orphan) = []"
    by (rule renderGroupsFrom_TabOrganizer_orphan) auto
  show ?thesis
    unfolding renderBrowserTabGroups_TabOrganizer_def Let_def renderGroupsFrom_TabOrganizer_append
    using r o by simp
qed

section \<open>The handlers of tab events\<close>

text \<open>
  Claim C4. For an update with status "loading" and a URL whose domain label is the one
  recorded for the tab, the handler leaves \<open>groupByTabId\<close> as it is and does not call
  \<open>organize\<close>, whatever the setting; it returns at once (when no \<open>lastError\<close> is pending).
\<close>

theorem onUpdated_unchanged_domain:
  assumes "status info = Some ''loading''"
      and "changedUrl info = Some u" and "u \<noteq> []"
      and "urlHostname br u = Some hostname"
      and "groupByTabId tabId = Some (parseSharedDomain br hostname)"
  shows "fst (onUpdated br lastError enableAutomaticSorting groupByTabId tabId info) = groupByTabId
       \<and> snd (onUpdated br lastError enableAutomaticSorting groupByTabId tabId info) \<noteq> Organized
       \<and> onUpdated br None enableAutomaticSorting groupByTabId tabId info
           = (groupByTabId, Returned)"
  using assms by (simp add: onUpdated_def split: option.splits)

theorem onUpdated_unchanged_domain_witness:
  "onUpdated sampleBrowser None True [7 \<mapsto> ''a.example''] 7
     \<lparr>status = Some ''loading'', changedUrl = Some ''https://a.example/inbox''\<rparr>
   = ([7 \<mapsto> ''a.example''], Returned)"
  using onUpdated_unchanged_domain[of
      "\<lparr>status = Some ''loading'', changedUrl = Some ''https://a.example/inbox''\<rparr>"
      "''https://a.example/inbox''" sampleBrowser "''a.example''"
      "[7 \<mapsto> ''a.example'']" 7 None True]
  by (simp add: sampleBrowser_def sampleHostname_def)

text \<open>
  Claim C10. For an update with status "loading" and a URL for a tab that has no entry in
  \<open>groupByTabId\<close> (and no \<open>lastError\<close> pending), the lookup yields \<open>undefined\<close>, which
  differs from every label: the handler records the label and calls \<open>organize\<close> exactly when
  the setting is enabled.
\<close>

theorem onUpdated_first_navigation:
  assumes "lastError = None"
      and "status info = Some ''loading''"
      and "changedUrl info = Some u" and "u \<noteq> []"
      and "urlHostname br u = Some hostname"
      and "groupByTabId tabId = None"
  shows "onUpdated br lastError enableAutomaticSorting groupByTabId tabId info
         = (groupByTabId(tabId \<mapsto> parseSharedDomain br hostname),
            if enableAutomaticSorting then Organized else Returned)"
  using assms by (simp add: onUpdated_def)

theorem onUpdated_first_navigation_witness:
  "onUpdated sampleBrowser None True Map.empty 7
     \<lparr>status = Some ''loading'', changedUrl = Some ''https://a.example/inbox''\<rparr>
   = ([7 \<mapsto> ''a.example''], Organized)
   \<and> onUpdated sampleBrowser None False Map.empty 7
     \<lparr>status = Some ''loading'', changedUrl = Some ''https://a.example/inbox''\<rparr>
   = ([7 \<mapsto> ''a.example''], Returned)"
  using onUpdated_first_navigation[of None
      "\<lparr>status = Some ''loading'', changedUrl = Some ''https://a.example/inbox''\<rparr>"
      "''https://a.example/inbox''" sampleBrowser "''a.example''" Map.empty 7 True]
    onUpdated_first_navigation[of None
      "\<lparr>status = Some ''loading'', changedUrl = Some ''https://a.example/inbox''\<rparr>"
      "''https://a.example/inbox''" sampleBrowser "''a.example''" Map.empty 7 False]
  by (simp add: sampleBrowser_def sampleHostname_def)

text \<open>
  Claim C5. The handler of a removed tab deletes the entry of the tab whatever the setting,
  and calls \<open>organize\<close> exactly when the setting is enabled.
\<close>

theorem onRemoved_forgets_tab:
  "fst (onRemoved enableAutomaticSorting groupByTabId tabId) = groupByTabId(tabId := None)
   \<and> fst (onRemoved enableAutomaticSorting groupByTabId tabId) tabId = None
   \<and> (snd (onRemoved enableAutomaticSorting groupByTabId tabId) = Organized)
       = enableAutomaticSorting"
  by (simp add: onRemoved_def Let_def)

section \<open>The settings store\<close>

lemma keys_fold_update:
  "fst ` set (fold (\<lambda>k acc. AList.update k (g k) acc) ks acc) = set ks \<union> fst ` set acc"
  by (induction ks arbitrary: acc) (auto simp: dom_update)

lemma distinct_fold_update:
  "distinct (map fst acc) \<Longrightarrow>
     distinct (map fst (fold (\<lambda>k acc. AList.update k (g k) acc) ks acc))"
  by (induction ks arbitrary: acc) (auto simp: distinct_update)

lemma update_append_new:
  "k \<notin> fst ` set al \<Longrightarrow> AList.update k v al = al @ [(k, v)]"
  by (induction al) auto

text \<open>Copying the properties of an object one by one into a fresh object gives the object.\<close>

lemma fold_update_rebuild:
  assumes "distinct (map fst (acc @ bl))" and "\<forall>(k, v)\<in>set bl. g k = v"
  shows "fold (\<lambda>k a. AList.update k (g k) a) (map fst bl) acc = acc @ bl"
  using assms
proof (induction bl arbitrary: acc)
  case Nil
  then show ?case by simp
next
  case (Cons e bl)
  obtain k v where e: "e = (k, v)" by (cases e)
  have gk: "g k = v" using Cons.prems(2) e by simp
  have "k \<notin> fst ` set acc" using Cons.prems(1) e by auto
  then have u: "AList.update k (g k) acc = acc @ [(k, v)]"
    using gk by (simp add: update_append_new)
  have "fold (\<lambda>k a. AList.update k (g k) a) (map fst bl) (acc @ [(k, v)]) = (acc @ [(k, v)]) @ bl"
    by (rule Cons.IH) (use Cons.prems e in auto)
  then show ?case using u e by simp
qed

lemma map_of_spread: "map_of (spread a b) = map_of a ++ map_of (rev b)"
  unfolding spread_def
proof (induction b arbitrary: a)
  case Nil
  then show ?case by simp
next
  case (Cons e b)
  obtain k v where e: "e = (k, v)" by (cases e)
  have "map_of (fold (\<lambda>(k, v). AList.update k v) b (AList.update k v a))
        = map_of (AList.update k v a) ++ map_of (rev b)"
    by (rule Cons.IH)
  then show ?case
    unfolding e by (simp add: update_conv' map_add_upd_left fun_eq_iff map_add_def split: option.splits)
qed

lemma keys_spread: "fst ` set (spread a b) = fst ` set a \<union> fst ` set b"
  unfolding spread_def
  by (induction b arbitrary: a) (auto simp: dom_update split: prod.splits)

lemma distinct_spread: "distinct (map fst a) \<Longrightarrow> distinct (map fst (spread a b))"
  unfolding spread_def
  by (induction b arbitrary: a) (auto simp: distinct_update split: prod.splits)

lemma fold_update_triv:
  "\<forall>(k, v)\<in>set q. map_of r k = Some v \<Longrightarrow> fold (\<lambda>(k, v). AList.update k v) q r = r"
  by (induction q) (auto simp: update_triv)

lemma spread_idem:
  assumes "distinct (map fst b)"
  shows "spread (spread a b) b = spread a b"
proof -
  have "distinct (map fst (rev b))"
    using assms by (simp add: rev_map[symmetric])
  then have "\<forall>(k, v)\<in>set b. map_of (rev b) k = Some v"
    by (auto intro: map_of_is_SomeI)
  then have "\<forall>(k, v)\<in>set b. map_of (spread a b) k = Some v"
    by (auto simp: map_of_spread map_add_def)
  then show ?thesis
    using fold_update_triv[of b "spread a b"] by (simp add: spread_def)
qed

lemma isKeyValid_iff:
  "isKeyValid k \<longleftrightarrow>
     k \<in> {''clusterGroupedTabs'', ''enableAutomaticGrouping'', ''enableAlphabeticSorting'',
          ''enableSubdomainFiltering'', ''forceWindowConsolidation''}"
  by (simp add: isKeyValid_def set_objectKeys makeDefaultState_def)

lemma isLegacyKeyValid_iff: "isLegacyKeyValid k \<longleftrightarrow> k = ''enableAutomaticSorting''"
  by (simp add: isLegacyKeyValid_def set_objectKeys makeLegacyState_def)

lemma getMigratedKey_legacy:
  "getMigratedKey ''enableAutomaticSorting'' = Some ''enableAlphabeticSorting''"
  by (simp add: getMigratedKey_def)

lemma getMigratedKey_Some:
  "getMigratedKey k = Some mk \<Longrightarrow>
     k = ''enableAutomaticSorting'' \<and> mk = ''enableAlphabeticSorting''"
  by (auto simp: getMigratedKey_def split: if_splits)

lemma legacy_not_valid: "\<not> isKeyValid ''enableAutomaticSorting''"
  by (simp add: isKeyValid_def set_objectKeys makeDefaultState_def)

lemma migrated_valid: "isKeyValid ''enableAlphabeticSorting''"
  by (simp add: isKeyValid_def set_objectKeys makeDefaultState_def)

lemma migrate_fold_done:
  "fold (\<lambda>legacyStateKey migratedState.
           case getMigratedKey legacyStateKey of
             None \<Rightarrow> migratedState
           | Some migratedKey \<Rightarrow>
               AList.update migratedKey (readProperty st legacyStateKey) migratedState)
        (filter (\<lambda>k. k = ''enableAutomaticSorting'') keys)
        [(''enableAlphabeticSorting'', readProperty st ''enableAutomaticSorting'')]
   = [(''enableAlphabeticSorting'', readProperty st ''enableAutomaticSorting'')]"
  by (induction keys) (simp_all add: getMigratedKey_legacy)

lemma migrateState_result:
  "migrateState keys st =
     (if ''enableAutomaticSorting'' \<in> set keys
      then [(''enableAlphabeticSorting'', readProperty st ''enableAutomaticSorting'')]
      else [])"
proof -
  have f: "filter isLegacyKeyValid keys = filter (\<lambda>k. k = ''enableAutomaticSorting'') keys"
    by (induction keys) (simp_all add: isLegacyKeyValid_iff)
  show ?thesis
    unfolding migrateState_def f
  proof (induction keys)
    case Nil
    then show ?case by simp
  next
    case (Cons k keys)
    show ?case
    proof (cases "k = ''enableAutomaticSorting''")
      case True
      then show ?thesis
        using migrate_fold_done[of st keys] by (simp add: getMigratedKey_legacy)
    next
      case False
      then show ?thesis using Cons.IH by simp
    qed
  qed
qed

lemma isKeyValid_not_index: "isKeyValid k \<Longrightarrow> stringIndex k = None"
  by (auto simp: isKeyValid_def set_objectKeys makeDefaultState_def stringIndex_def isDigit_def)

lemma objectEntries_no_index:
  assumes "\<forall>(k, v)\<in>set obj. f k = None"
  shows "objectEntries f obj = obj"
proof -
  have "filter (\<lambda>(k, v). f k \<noteq> None) obj = []"
    using assms by (auto simp: filter_empty_conv)
  moreover have "filter (\<lambda>(k, v). f k = None) obj = obj"
    using assms by (auto simp: filter_id_conv)
  ultimately show ?thesis
    by (simp add: objectEntries_def)
qed

lemma parseValidState_Inr:
  assumes "blob \<noteq> []" and "jsonParse blob = Some parsedState"
      and "ownProperties parsedState = Some properties"
  shows "parseValidState jsonParse blob =
     Inr (spread
            (fold (\<lambda>validStateKey acc.
                     AList.update validStateKey (readProperty parsedState validStateKey) acc)
                  (filter isKeyValid (objectKeys stringIndex properties)) [])
            (migrateState (objectKeys stringIndex properties) parsedState))"
  using assms by (simp add: parseValidState_def Let_def)

lemma parseValidState_InrE:
  assumes "parseValidState jsonParse blob = Inr validState"
  obtains parsedState properties where
    "blob \<noteq> []" and "jsonParse blob = Some parsedState"
    and "ownProperties parsedState = Some properties"
    and "validState =
           spread
             (fold (\<lambda>validStateKey acc.
                      AList.update validStateKey (readProperty parsedState validStateKey) acc)
                   (filter isKeyValid (objectKeys stringIndex properties)) [])
             (migrateState (objectKeys stringIndex properties) parsedState)"
  using assms by (auto simp: parseValidState_def Let_def split: if_splits option.splits)

lemma parseValidState_keys:
  assumes "parseValidState jsonParse blob = Inr validState"
  shows "distinct (map fst validState) \<and> (\<forall>k\<in>fst ` set validState. isKeyValid k)"
proof (rule parseValidState_InrE[OF assms])
  fix parsedState properties
  assume v: "validState =
          spread
            (fold (\<lambda>validStateKey acc.
                     AList.update validStateKey (readProperty parsedState validStateKey) acc)
                  (filter isKeyValid (objectKeys stringIndex properties)) [])
            (migrateState (objectKeys stringIndex properties) parsedState)"
  let ?V = "fold (\<lambda>validStateKey acc.
                     AList.update validStateKey (readProperty parsedState validStateKey) acc)
                  (filter isKeyValid (objectKeys stringIndex properties)) []"
  have "distinct (map fst ?V)"
    by (rule distinct_fold_update) simp
  then have d: "distinct (map fst validState)"
    unfolding v by (rule distinct_spread)
  have kV: "fst ` set ?V = set (filter isKeyValid (objectKeys stringIndex properties))"
    using keys_fold_update[of "readProperty parsedState" "filter isKeyValid (objectKeys stringIndex properties)" "[]"]
    by simp
  have kM: "\<forall>k\<in>fst ` set (migrateState (objectKeys stringIndex properties) parsedState). isKeyValid k"
    by (simp add: migrateState_result migrated_valid)
  have "\<forall>k\<in>fst ` set validState. isKeyValid k"
    unfolding v keys_spread kV using kM by auto
  then show ?thesis using d by simp
qed

lemma parseValidState_again:
  assumes "parseValidState jsonParse blob = Inr validState"
      and "blob' \<noteq> []" and "jsonParse blob' = Some (JObj validState)"
  shows "parseValidState jsonParse blob' = Inr validState"
proof -
  have d: "distinct (map fst validState)" and k: "\<forall>k\<in>fst ` set validState. isKeyValid k"
    using parseValidState_keys[OF assms(1)] by simp_all
  have "objectEntries stringIndex validState = validState"
    by (rule objectEntries_no_index) (use k isKeyValid_not_index in auto)
  then have keys: "objectKeys stringIndex validState = map fst validState"
    by (simp add: objectKeys_def)
  have all: "filter isKeyValid (map fst validState) = map fst validState"
    using k by (simp add: filter_id_conv)
  have rd: "\<forall>(k, v)\<in>set validState. readProperty (JObj validState) k = v"
    using d by (auto simp: readProperty_def)
  have rebuild: "fold (\<lambda>validStateKey acc.
        AList.update validStateKey (readProperty (JObj validState) validStateKey) acc)
        (map fst validState) [] = validState"
    using fold_update_rebuild[of "[]" validState "readProperty (JObj validState)"] d rd by simp
  have "''enableAutomaticSorting'' \<notin> set (map fst validState)"
    using k legacy_not_valid by auto
  then have mig: "migrateState (map fst validState) (JObj validState) = []"
    by (simp add: migrateState_result)
  show ?thesis
    using parseValidState_Inr[of blob' jsonParse "JObj validState" validState] assms(2,3)
    by (simp add: keys all rebuild mig spread_def)
qed

text \<open>
  Claim C6. Whatever \<open>parseValidState\<close> returns has only keys of the current schema
  (none of them a legacy key); applied to a blob that decodes to the state it returned, it
  returns that state again; and loading the same blob into the store a second time leaves
  the store as the first load left it.
\<close>

theorem parseValidState_idempotent:
  assumes "parseValidState jsonParse blob = Inr validState"
  shows "(\<forall>k\<in>set (map fst validState). isKeyValid k \<and> \<not> isLegacyKeyValid k)
       \<and> (\<forall>blob'. blob' \<noteq> [] \<and> jsonParse blob' = Some (JObj validState) \<longrightarrow>
             parseValidState jsonParse blob' = Inr validState)
       \<and> fst (load jsonParse (Inr (SettingsString blob))
                (fst (load jsonParse (Inr (SettingsString blob)) s)))
           = fst (load jsonParse (Inr (SettingsString blob)) s)"
proof (intro conjI allI impI ballI)
  fix k assume "k \<in> set (map fst validState)"
  then have "isKeyValid k" using parseValidState_keys[OF assms] by auto
  then show "isKeyValid k" and "\<not> isLegacyKeyValid k"
    using legacy_not_valid by (auto simp: isLegacyKeyValid_iff)
next
  fix blob' assume "blob' \<noteq> [] \<and> jsonParse blob' = Some (JObj validState)"
  then show "parseValidState jsonParse blob' = Inr validState"
    using parseValidState_again[OF assms] by blast
next
  have d: "distinct (map fst validState)" using parseValidState_keys[OF assms] by simp
  show "fst (load jsonParse (Inr (SettingsString blob))
                (fst (load jsonParse (Inr (SettingsString blob)) s)))
           = fst (load jsonParse (Inr (SettingsString blob)) s)"
    using assms spread_idem[OF d]
    by (simp add: load_def cacheStorage_def setInternalState_def Let_def)
qed

text \<open>
  A blob with a schema key, an unknown key and the legacy key: the state it yields, the
  same state from the blob of that state, and the store after two loads.
\<close>

theorem parseValidState_idempotent_witness:
  \<open>parseValidState sampleJsonParse
      ''{"enableAlphabeticSorting":true,"theme":"dark","enableAutomaticSorting":false}''
    = Inr [(''enableAlphabeticSorting'', JBool False)]
   \<and> parseValidState sampleJsonParse ''{"enableAlphabeticSorting":false}''
    = Inr [(''enableAlphabeticSorting'', JBool False)]
   \<and> fst (load sampleJsonParse (Inr (SettingsString
          ''{"enableAlphabeticSorting":true,"theme":"dark","enableAutomaticSorting":false}''))
        (fst (load sampleJsonParse (Inr (SettingsString
          ''{"enableAlphabeticSorting":true,"theme":"dark","enableAutomaticSorting":false}''))
           newStore)))
     = \<lparr>state = [(''clusterGroupedTabs'', JBool True),
                 (''enableAutomaticGrouping'', JBool True),
                 (''enableAlphabeticSorting'', JBool False),
                 (''enableSubdomainFiltering'', JBool False),
                 (''forceWindowConsolidation'', JBool False)],
         loaded = True\<rparr>\<close>
proof -
  have run: \<open>parseValidState sampleJsonParse
      ''{"enableAlphabeticSorting":true,"theme":"dark","enableAutomaticSorting":false}''
    = Inr [(''enableAlphabeticSorting'', JBool False)]\<close>
    by (simp add: parseValidState_def sampleJsonParse_def isKeyValid_iff
        migrateState_def isLegacyKeyValid_iff getMigratedKey_def
        readProperty_def spread_def Let_def objectKeys_def objectEntries_def stringIndex_def
        isDigit_def)
  have again: \<open>sampleJsonParse ''{"enableAlphabeticSorting":false}''
      = Some (JObj [(''enableAlphabeticSorting'', JBool False)])\<close>
    by (simp add: sampleJsonParse_def)
  have once: \<open>fst (load sampleJsonParse (Inr (SettingsString
          ''{"enableAlphabeticSorting":true,"theme":"dark","enableAutomaticSorting":false}''))
           newStore)
     = \<lparr>state = [(''clusterGroupedTabs'', JBool True),
                 (''enableAutomaticGrouping'', JBool True),
                 (''enableAlphabeticSorting'', JBool False),
                 (''enableSubdomainFiltering'', JBool False),
                 (''forceWindowConsolidation'', JBool False)],
         loaded = True\<rparr>\<close>
    using run
    by (simp add: load_def cacheStorage_def setInternalState_def newStore_def
        makeDefaultState_def spread_def Let_def)
  show ?thesis
    using run again once parseValidState_idempotent[OF run, of newStore] by simp
qed

text \<open>
  Claim C7. When the blob has a legacy key that migrates, the state \<open>parseValidState\<close>
  returns holds the value of the legacy key under the new key, whether or not the blob
  also has a value under the new key, and it has no legacy key.
\<close>

theorem parseValidState_migration_wins:
  assumes "blob \<noteq> []" and "jsonParse blob = Some (JObj properties)"
      and "map_of properties legacyKey = Some v"
      and "isLegacyKeyValid legacyKey" and "getMigratedKey legacyKey = Some migratedKey"
  shows "\<exists>validState. parseValidState jsonParse blob = Inr validState
           \<and> map_of validState migratedKey = Some v
           \<and> map_of validState legacyKey = None"
proof -
  have lk: "legacyKey = ''enableAutomaticSorting''" and mk: "migratedKey = ''enableAlphabeticSorting''"
    using getMigratedKey_Some[OF assms(5)] by simp_all
  define validParsedState where
    "validParsedState =
       fold (\<lambda>validStateKey acc.
               AList.update validStateKey (readProperty (JObj properties) validStateKey) acc)
            (filter isKeyValid (objectKeys stringIndex properties)) []"
  define validState where
    "validState = spread validParsedState (migrateState (objectKeys stringIndex properties) (JObj properties))"
  have run: "parseValidState jsonParse blob = Inr validState"
    unfolding validState_def validParsedState_def
    by (rule parseValidState_Inr[of blob jsonParse "JObj properties" properties])
       (simp_all add: assms(1,2))
  have "legacyKey \<in> fst ` set properties"
    using map_of_SomeD[OF assms(3)] by (rule rev_image_eqI) simp
  then have mem: "''enableAutomaticSorting'' \<in> set (objectKeys stringIndex properties)"
    using lk by (simp add: set_objectKeys)
  have rd: "readProperty (JObj properties) ''enableAutomaticSorting'' = v"
    using assms(3) lk by (simp add: readProperty_def)
  have mig: "migrateState (objectKeys stringIndex properties) (JObj properties) = [(migratedKey, v)]"
    using mem rd mk by (simp add: migrateState_result)
  have won: "map_of validState migratedKey = Some v"
    unfolding validState_def mig by (simp add: map_of_spread)
  have valid: "\<forall>k\<in>fst ` set validState. isKeyValid k"
    using parseValidState_keys[OF run] by (rule conjunct2)
  have "\<not> isKeyValid legacyKey"
    using legacy_not_valid lk by simp
  then have "legacyKey \<notin> fst ` set validState"
    using valid by blast
  then have gone: "map_of validState legacyKey = None"
    by (simp add: map_of_eq_None_iff)
  show ?thesis using run won gone by blast
qed

text \<open>
  The blob of the specification, and a blob where the new key is present as well with
  the opposite value.
\<close>

theorem parseValidState_migration_wins_witness:
  \<open>parseValidState sampleJsonParse ''{"enableAutomaticSorting":false}''
     = Inr [(''enableAlphabeticSorting'', JBool False)]
   \<and> (\<exists>validState.
         parseValidState sampleJsonParse
           ''{"enableAlphabeticSorting":true,"theme":"dark","enableAutomaticSorting":false}''
           = Inr validState
         \<and> map_of validState ''enableAlphabeticSorting'' = Some (JBool False)
         \<and> map_of validState ''enableAutomaticSorting'' = None)\<close>
proof -
  have run: \<open>parseValidState sampleJsonParse ''{"enableAutomaticSorting":false}''
     = Inr [(''enableAlphabeticSorting'', JBool False)]\<close>
    by (simp add: parseValidState_def sampleJsonParse_def isKeyValid_iff
        migrateState_def isLegacyKeyValid_iff getMigratedKey_def
        readProperty_def spread_def Let_def objectKeys_def objectEntries_def stringIndex_def
        isDigit_def)
  have \<open>\<exists>validState.
         parseValidState sampleJsonParse
           ''{"enableAlphabeticSorting":true,"theme":"dark","enableAutomaticSorting":false}''
           = Inr validState
         \<and> map_of validState ''enableAlphabeticSorting'' = Some (JBool False)
         \<and> map_of validState ''enableAutomaticSorting'' = None\<close>
    by (rule parseValidState_migration_wins[where
          properties = "[(''enableAlphabeticSorting'', JBool True), (''theme'', JStr ''dark''),
                         (''enableAutomaticSorting'', JBool False)]"])
       (simp_all add: sampleJsonParse_def isLegacyKeyValid_iff getMigratedKey_legacy)
  then show ?thesis using run by simp
qed

text \<open>
  Claim C8. Once the store is loaded, \<open>setState\<close> merges the partial state into the state
  in memory, hands the serialized merged state to the storage, and settles as the write
  does; the merged state is what \<open>getState\<close> resolves to afterwards, whether the write
  failed or not.
\<close>

theorem setState_merges_without_rollback:
  assumes "loaded s"
  shows "setState jsonStringify writeError s partial
           = (s\<lparr>state := spread (state s) partial\<rparr>,
              Some (jsonStringify (spread (state s) partial)),
              (case writeError of None \<Rightarrow> Resolved () | Some e \<Rightarrow> Rejected e))
       \<and> getState (fst (setState jsonStringify writeError s partial))
           = Resolved (spread (state s) partial)"
  using assms by (simp add: setState_def setInternalState_def getState_def Let_def)

text \<open>The example of the specification, with a write that fails and one that succeeds.\<close>

theorem setState_merges_without_rollback_witness:
  "getState (fst (setState sampleStringify (Some (StorageError ''QUOTA_BYTES''))
       \<lparr>state = [(''flagA'', JBool True), (''flagB'', JBool True)], loaded = True\<rparr>
       [(''flagA'', JBool False)]))
     = Resolved [(''flagA'', JBool False), (''flagB'', JBool True)]
   \<and> snd (snd (setState sampleStringify (Some (StorageError ''QUOTA_BYTES''))
       \<lparr>state = [(''flagA'', JBool True), (''flagB'', JBool True)], loaded = True\<rparr>
       [(''flagA'', JBool False)]))
     = Rejected (StorageError ''QUOTA_BYTES'')
   \<and> getState (fst (setState sampleStringify None
       \<lparr>state = [(''flagA'', JBool True), (''flagB'', JBool True)], loaded = True\<rparr>
       [(''flagA'', JBool False)]))
     = Resolved [(''flagA'', JBool False), (''flagB'', JBool True)]
   \<and> snd (snd (setState sampleStringify None
       \<lparr>state = [(''flagA'', JBool True), (''flagB'', JBool True)], loaded = True\<rparr>
       [(''flagA'', JBool False)]))
     = Resolved ()"
  using setState_merges_without_rollback[of
      "\<lparr>state = [(''flagA'', JBool True), (''flagB'', JBool True)], loaded = True\<rparr>"
      sampleStringify "Some (StorageError ''QUOTA_BYTES'')" "[(''flagA'', JBool False)]"]
    setState_merges_without_rollback[of
      "\<lparr>state = [(''flagA'', JBool True), (''flagB'', JBool True)], loaded = True\<rparr>"
      sampleStringify None "[(''flagA'', JBool False)]"]
  by (simp add: spread_def getState_def)

end
